(* ===== verification/AC_Prelude.thy ===== *)
theory AC_Prelude
  imports Main "HOL-Library.Word"
begin

text \<open>
  Shared vocabulary of the development: the machine integer types, the outcome of
  a C expression that may run into undefined behaviour, checked access to fixed
  size arrays, and the generic lemmas the components share.

  A C array of \<open>n\<close> elements is a list of length \<open>n\<close>. Every read, write and
  \<open>memcpy\<close> whose offset is not a constant inside the array goes through
  \<open>fetch\<close>, \<open>store\<close> and \<open>memcpy\<close>, which yield \<open>Inl Out_of_bounds\<close> where the
  C code would touch memory outside the array.
\<close>

unbundle bit_operations_syntax

subsection \<open>Machine integers\<close>

type_synonym u8 = "8 word"
type_synonym u16 = "16 word"
type_synonym u32 = "32 word"
type_synonym u64 = "64 word"

named_theorems cres_simps \<open>rewriting of computations that may fault\<close>
named_theorems frame_simps \<open>fields an operation leaves alone\<close>

lemma xor_word_cancel:
  fixes a b c :: "'a::len word"
  shows xor_left_cancel: "c XOR a = c XOR b \<longleftrightarrow> a = b"
    and xor_right_cancel: "a XOR c = b XOR c \<longleftrightarrow> a = b"
proof -
  have "c XOR (c XOR x) = x" for x
    by (simp add: xor.assoc [symmetric])
  then show left: "c XOR a = c XOR b \<longleftrightarrow> a = b" by metis
  then show "a XOR c = b XOR c \<longleftrightarrow> a = b" by (simp add: xor.commute)
qed

lemma xor_word_eq_0: "a XOR b = 0 \<longleftrightarrow> a = b" for a b :: "'a::len word"
  using xor_left_cancel [of b a b] by (simp add: xor.commute)

lemma xor_word_swap:
  fixes s t x y :: "'a::len word"
  assumes "s XOR x = t XOR y"
  shows "s XOR t = x XOR y"
proof (rule bit_eqI)
  fix n
  have "bit (s XOR x) n = bit (t XOR y) n" by (simp only: assms)
  then show "bit (s XOR t) n = bit (x XOR y) n" by (auto simp: bit_xor_iff)
qed

subsection \<open>Outcomes\<close>

datatype c_fault =
    Out_of_bounds
  | Null_pointer
  | Bad_shift
  | Uninitialised

type_synonym 'a cres = "c_fault + 'a"

definition cbind :: "'a cres \<Rightarrow> ('a \<Rightarrow> 'b cres) \<Rightarrow> 'b cres" where
  "cbind r k = (case r of Inl e \<Rightarrow> Inl e | Inr x \<Rightarrow> k x)"

lemma cbind_simps [simp, cres_simps]:
  "cbind (Inr x) k = k x"
  "cbind (Inl e) k = Inl e"
  by (simp_all add: cbind_def)

lemma cbind_Inr_iff [cres_simps]:
  "cbind r k = Inr y \<longleftrightarrow> (\<exists>x. r = Inr x \<and> k x = Inr y)"
  by (cases r) simp_all

lemma cbind_cong [fundef_cong]:
  "r = r' \<Longrightarrow> (\<And>x. r' = Inr x \<Longrightarrow> k x = k' x) \<Longrightarrow> cbind r k = cbind r' k'"
  by (cases r') auto

subsection \<open>Arrays\<close>

definition fetch :: "'a list \<Rightarrow> nat \<Rightarrow> 'a cres" where
  "fetch xs i = (if i < length xs then Inr (xs ! i) else Inl Out_of_bounds)"

definition store :: "'a list \<Rightarrow> nat \<Rightarrow> 'a \<Rightarrow> 'a list cres" where
  "store xs i v = (if i < length xs then Inr (xs[i := v]) else Inl Out_of_bounds)"

text \<open>\<open>memcpy dst d src s n\<close> copies \<open>n\<close> elements from \<open>src + s\<close> to \<open>dst + d\<close>.\<close>

definition memcpy :: "'a list \<Rightarrow> nat \<Rightarrow> 'a list \<Rightarrow> nat \<Rightarrow> nat \<Rightarrow> 'a list cres" where
  "memcpy dst d src s n =
     (if d + n \<le> length dst \<and> s + n \<le> length src
      then Inr (take d dst @ take n (drop s src) @ drop (d + n) dst)
      else Inl Out_of_bounds)"

lemma fetch_Inr [cres_simps]: "fetch xs i = Inr v \<longleftrightarrow> i < length xs \<and> v = xs ! i"
  by (auto simp: fetch_def)

lemma store_Inr [cres_simps]: "store xs i v = Inr ys \<longleftrightarrow> i < length xs \<and> ys = xs[i := v]"
  by (auto simp: store_def)

lemma store_length: "store xs i v = Inr ys \<Longrightarrow> length ys = length xs"
  by (auto simp: store_Inr)

lemma memcpy_Inr [cres_simps]:
  "memcpy dst d src s n = Inr ys \<longleftrightarrow>
     d + n \<le> length dst \<and> s + n \<le> length src \<and>
     ys = take d dst @ take n (drop s src) @ drop (d + n) dst"
  by (auto simp: memcpy_def)

lemma memcpy_length: "memcpy dst d src s n = Inr ys \<Longrightarrow> length ys = length dst"
  by (auto simp: memcpy_Inr)

lemma memcpy_whole:
  "length src \<le> length dst \<Longrightarrow>
     memcpy dst 0 src 0 (length src) = Inr (src @ drop (length src) dst)"
  by (simp add: memcpy_def)

subsection \<open>Loops over a state and their outcomes\<close>

text \<open>\<open>cfold f xs s\<close> is \<open>for (x in xs) f(x)\<close> on the state \<open>s\<close>.\<close>

fun cfold :: "('a \<Rightarrow> 's \<Rightarrow> 's cres) \<Rightarrow> 'a list \<Rightarrow> 's \<Rightarrow> 's cres" where
  "cfold f [] s = Inr s"
| "cfold f (x # xs) s = cbind (f x s) (cfold f xs)"

text \<open>
  \<open>returns r P\<close>: the computation has no undefined behaviour and its result satisfies \<open>P\<close>.
\<close>

definition returns :: "'a cres \<Rightarrow> ('a \<Rightarrow> bool) \<Rightarrow> bool" where
  "returns r P \<longleftrightarrow> (case r of Inl _ \<Rightarrow> False | Inr x \<Rightarrow> P x)"

lemma returns_simps [simp]:
  "returns (Inr x) P \<longleftrightarrow> P x"
  "returns (Inl e) P \<longleftrightarrow> False"
  "returns (cbind r k) P \<longleftrightarrow> returns r (\<lambda>x. returns (k x) P)"
  by (simp_all add: returns_def cbind_def split: sum.splits)

lemma returns_iff: "returns r P \<longleftrightarrow> (\<exists>x. r = Inr x \<and> P x)"
  by (cases r) simp_all

lemma returns_mono: "returns r P \<Longrightarrow> (\<And>x. P x \<Longrightarrow> Q x) \<Longrightarrow> returns r Q"
  by (cases r) simp_all

lemma returns_bind:
  "returns r P \<Longrightarrow> (\<And>x. P x \<Longrightarrow> returns (k x) Q) \<Longrightarrow> returns (cbind r k) Q"
  by (simp add: returns_mono)

lemma returns_if:
  "(c \<Longrightarrow> returns a Q) \<Longrightarrow> (\<not> c \<Longrightarrow> returns b Q) \<Longrightarrow> returns (if c then a else b) Q"
  by simp

lemma returns_cfold:
  assumes "\<And>x s. x \<in> set xs \<Longrightarrow> P s \<Longrightarrow> returns (f x s) P" and "P s"
  shows "returns (cfold f xs s) P"
  using assms
proof (induction xs arbitrary: s)
  case (Cons x xs)
  have "returns (f x s) P" using Cons.prems by simp
  then show ?case
    using Cons by (auto intro: returns_mono)
qed simp

text \<open>\<open>unless_fault r P\<close>: if the computation returns, its result satisfies \<open>P\<close>.\<close>

definition unless_fault :: "'a cres \<Rightarrow> ('a \<Rightarrow> bool) \<Rightarrow> bool" where
  "unless_fault r P \<longleftrightarrow> (case r of Inl _ \<Rightarrow> True | Inr x \<Rightarrow> P x)"

lemma unless_fault_simps [simp]:
  "unless_fault (Inr x) P \<longleftrightarrow> P x"
  "unless_fault (Inl e) P"
  "unless_fault (cbind r k) P \<longleftrightarrow> unless_fault r (\<lambda>x. unless_fault (k x) P)"
  by (simp_all add: unless_fault_def cbind_def split: sum.splits)

lemma unless_bindI: "unless_fault r P \<Longrightarrow> (\<And>x. P x \<Longrightarrow> unless_fault (k x) Q) \<Longrightarrow> unless_fault (cbind r k) Q"
  by (cases r) simp_all

lemma unless_if: "(c \<Longrightarrow> unless_fault a P) \<Longrightarrow> (\<not> c \<Longrightarrow> unless_fault b P) \<Longrightarrow> unless_fault (if c then a else b) P"
  by simp

lemma unless_fault_mono: "unless_fault r P \<Longrightarrow> (\<And>x. P x \<Longrightarrow> Q x) \<Longrightarrow> unless_fault r Q"
  by (cases r) simp_all

lemma unless_fault_conj: "unless_fault r P \<Longrightarrow> unless_fault r Q \<Longrightarrow> unless_fault r (\<lambda>x. P x \<and> Q x)"
  by (cases r) simp_all

lemma unless_fault_True [simp]: "unless_fault r (\<lambda>x. True)"
  by (cases r) simp_all

lemma unless_fault_Inr: "unless_fault r P \<Longrightarrow> r = Inr x \<Longrightarrow> P x"
  by simp

lemma returns_unless: "returns r P \<Longrightarrow> unless_fault r Q \<Longrightarrow> returns r (\<lambda>x. P x \<and> Q x)"
  by (cases r) simp_all

lemma unless_cfold:
  assumes "\<And>x s. x \<in> set xs \<Longrightarrow> P s \<Longrightarrow> unless_fault (f x s) P" and "P s"
  shows "unless_fault (cfold f xs s) P"
  using assms
proof (induction xs arbitrary: s)
  case (Cons x xs)
  then show ?case by (auto intro: unless_fault_mono)
qed simp

lemma cfold_append [cres_simps]: "cfold f (xs @ ys) s = cbind (cfold f xs s) (cfold f ys)"
proof (induction xs arbitrary: s)
  case (Cons x xs)
  then show ?case by (cases "f x s") simp_all
qed simp

end
