(* ===== verification/Crc16.thy ===== *)
theory Crc16
  imports AC_Prelude
begin

text \<open>
  The checksum of the OSDP library: \<open>CRC16Table\<close> (\<open>readers/osdp/crctable.c\<close>) and
  \<open>fCrcBlk\<close> (\<open>readers/osdp/osdp.c\<close>). The reference is the bit-serial CRC with
  generator \<open>x^16 + x^12 + x^5 + 1\<close>; the table driven loop is shown to compute it,
  to read exactly \<open>nLength\<close> bytes, and to tell apart any two messages that differ
  inside a window of two adjacent bytes.
\<close>

subsection \<open>The table and the loop\<close>

definition CRC16Table :: "u16 list" where
  "CRC16Table = [
     0x0000, 0x1021, 0x2042, 0x3063, 0x4084, 0x50A5, 0x60C6, 0x70E7,
     0x8108, 0x9129, 0xA14A, 0xB16B, 0xC18C, 0xD1AD, 0xE1CE, 0xF1EF,
     0x1231, 0x0210, 0x3273, 0x2252, 0x52B5, 0x4294, 0x72F7, 0x62D6,
     0x9339, 0x8318, 0xB37B, 0xA35A, 0xD3BD, 0xC39C, 0xF3FF, 0xE3DE,
     0x2462, 0x3443, 0x0420, 0x1401, 0x64E6, 0x74C7, 0x44A4, 0x5485,
     0xA56A, 0xB54B, 0x8528, 0x9509, 0xE5EE, 0xF5CF, 0xC5AC, 0xD58D,
     0x3653, 0x2672, 0x1611, 0x0630, 0x76D7, 0x66F6, 0x5695, 0x46B4,
     0xB75B, 0xA77A, 0x9719, 0x8738, 0xF7DF, 0xE7FE, 0xD79D, 0xC7BC,
     0x48C4, 0x58E5, 0x6886, 0x78A7, 0x0840, 0x1861, 0x2802, 0x3823,
     0xC9CC, 0xD9ED, 0xE98E, 0xF9AF, 0x8948, 0x9969, 0xA90A, 0xB92B,
     0x5AF5, 0x4AD4, 0x7AB7, 0x6A96, 0x1A71, 0x0A50, 0x3A33, 0x2A12,
     0xDBFD, 0xCBDC, 0xFBBF, 0xEB9E, 0x9B79, 0x8B58, 0xBB3B, 0xAB1A,
     0x6CA6, 0x7C87, 0x4CE4, 0x5CC5, 0x2C22, 0x3C03, 0x0C60, 0x1C41,
     0xEDAE, 0xFD8F, 0xCDEC, 0xDDCD, 0xAD2A, 0xBD0B, 0x8D68, 0x9D49,
     0x7E97, 0x6EB6, 0x5ED5, 0x4EF4, 0x3E13, 0x2E32, 0x1E51, 0x0E70,
     0xFF9F, 0xEFBE, 0xDFDD, 0xCFFC, 0xBF1B, 0xAF3A, 0x9F59, 0x8F78,
     0x9188, 0x81A9, 0xB1CA, 0xA1EB, 0xD10C, 0xC12D, 0xF14E, 0xE16F,
     0x1080, 0x00A1, 0x30C2, 0x20E3, 0x5004, 0x4025, 0x7046, 0x6067,
     0x83B9, 0x9398, 0xA3FB, 0xB3DA, 0xC33D, 0xD31C, 0xE37F, 0xF35E,
     0x02B1, 0x1290, 0x22F3, 0x32D2, 0x4235, 0x5214, 0x6277, 0x7256,
     0xB5EA, 0xA5CB, 0x95A8, 0x8589, 0xF56E, 0xE54F, 0xD52C, 0xC50D,
     0x34E2, 0x24C3, 0x14A0, 0x0481, 0x7466, 0x6447, 0x5424, 0x4405,
     0xA7DB, 0xB7FA, 0x8799, 0x97B8, 0xE75F, 0xF77E, 0xC71D, 0xD73C,
     0x26D3, 0x36F2, 0x0691, 0x16B0, 0x6657, 0x7676, 0x4615, 0x5634,
     0xD94C, 0xC96D, 0xF90E, 0xE92F, 0x99C8, 0x89E9, 0xB98A, 0xA9AB,
     0x5844, 0x4865, 0x7806, 0x6827, 0x18C0, 0x08E1, 0x3882, 0x28A3,
     0xCB7D, 0xDB5C, 0xEB3F, 0xFB1E, 0x8BF9, 0x9BD8, 0xABBB, 0xBB9A,
     0x4A75, 0x5A54, 0x6A37, 0x7A16, 0x0AF1, 0x1AD0, 0x2AB3, 0x3A92,
     0xFD2E, 0xED0F, 0xDD6C, 0xCD4D, 0xBDAA, 0xAD8B, 0x9DE8, 0x8DC9,
     0x7C26, 0x6C07, 0x5C64, 0x4C45, 0x3CA2, 0x2C83, 0x1CE0, 0x0CC1,
     0xEF1F, 0xFF3E, 0xCF5D, 0xDF7C, 0xAF9B, 0xBFBA, 0x8FD9, 0x9FF8,
     0x6E17, 0x7E36, 0x4E55, 0x5E74, 0x2E93, 0x3EB2, 0x0ED1, 0x1EF0]"

text \<open>One iteration: \<open>nCrc = (nCrc<<8) ^ CRC16Table[((nCrc>>8) ^ pData[ii]) & 0xFF]\<close>.\<close>

definition crc_step :: "u16 \<Rightarrow> u8 \<Rightarrow> u16" where
  "crc_step nCrc b =
     push_bit 8 nCrc XOR CRC16Table ! unat ((drop_bit 8 nCrc XOR ucast b) AND 0xFF)"

function fCrcBlk_loop :: "u8 list \<Rightarrow> nat \<Rightarrow> nat \<Rightarrow> u16 \<Rightarrow> u16 cres" where
  "fCrcBlk_loop pData nLength ii nCrc =
     (if ii < nLength
      then cbind (fetch pData ii) (\<lambda>b. fCrcBlk_loop pData nLength (Suc ii) (crc_step nCrc b))
      else Inr nCrc)"
  by pat_completeness auto
termination
  by (relation "measure (\<lambda>(pData, nLength, ii, nCrc). nLength - ii)") auto

declare fCrcBlk_loop.simps [simp del]

definition fCrcBlk :: "u8 list \<Rightarrow> u16 \<Rightarrow> u16 cres" where
  "fCrcBlk pData nLength = fCrcBlk_loop pData (unat nLength) 0 0x1D0F"

subsection \<open>The bit-serial reference\<close>

text \<open>
  One bit of the shift register, eight of them, and a message byte by byte. This is the
  specification of the checksum, not code of the repository.
\<close>

definition crc_bit :: "u16 \<Rightarrow> u16" where
  "crc_bit c = (if bit c 15 then push_bit 1 c XOR 0x1021 else push_bit 1 c)"

definition crc_shift8 :: "u16 \<Rightarrow> u16" where
  "crc_shift8 c = (crc_bit ^^ 8) c"

definition crc_byte :: "u16 \<Rightarrow> u8 \<Rightarrow> u16" where
  "crc_byte c b = crc_shift8 (c XOR push_bit 8 (ucast b))"

definition crc_ref :: "u8 list \<Rightarrow> u16" where
  "crc_ref bs = foldl crc_byte 0x1D0F bs"

subsection \<open>The table holds the bit-serial remainders\<close>

lemma crc_shift8_unfold:
  "crc_shift8 c = crc_bit (crc_bit (crc_bit (crc_bit (crc_bit (crc_bit (crc_bit (crc_bit c)))))))"
  by (simp add: crc_shift8_def eval_nat_numeral)

lemma upt_256: "[0..<256] = 0 # Suc 0 # [2..<256]"
  by (simp add: upt_conv_Cons numeral_2_eq_2 del: upt_rec_numeral)

lemma CRC16Table_eq:
  "map (\<lambda>i. crc_shift8 (push_bit 8 (word_of_nat i))) [0..<256] = CRC16Table"
  unfolding CRC16Table_def upt_256
  apply simp
  apply (simp add: crc_shift8_unfold crc_bit_def)
  done

lemma CRC16Table_nth: "CRC16Table ! unat (b :: u8) = crc_shift8 (push_bit 8 (ucast b))"
proof -
  have "unat b < 256" using unsigned_less [of b, where 'a = nat] by simp
  then have "CRC16Table ! unat b = crc_shift8 (push_bit 8 (word_of_nat (unat b)))"
    by (simp flip: CRC16Table_eq)
  then show ?thesis by simp
qed

lemma CRC16Table_low_byte: "t \<in> set CRC16Table \<Longrightarrow> t AND 0xFF = 0 \<Longrightarrow> t = 0"
proof -
  have "\<forall>t \<in> set CRC16Table. t AND 0xFF = 0 \<longrightarrow> t = 0"
    unfolding CRC16Table_def by simp
  then show "t \<in> set CRC16Table \<Longrightarrow> t AND 0xFF = 0 \<Longrightarrow> t = 0" by blast
qed

lemma crc_bit_xor: "crc_bit (a XOR b) = crc_bit a XOR crc_bit b"
  by (rule bit_eqI) (auto simp: crc_bit_def bit_simps)

lemma crc_bit_eq_0: "crc_bit c = 0 \<Longrightarrow> c = 0"
proof (cases "bit c 15")
  case True
  assume "crc_bit c = 0"
  then have "push_bit 1 c = 0x1021"
    using True by (simp add: crc_bit_def xor_word_eq_0)
  moreover have "\<not> bit (push_bit 1 c) 0" and "bit (0x1021 :: u16) 0"
    by (simp_all add: bit_push_bit_iff del: push_bit_of_1 push_bit_Suc)
  ultimately show ?thesis by metis
next
  case False
  assume "crc_bit c = 0"
  then have 1: "push_bit 1 c = 0" using False by (simp add: crc_bit_def)
  have "bit c n = False" for n
  proof (cases "n < 15")
    case True
    have "bit (push_bit 1 c) (Suc n) \<longleftrightarrow> bit c n"
      using True by (auto simp: bit_push_bit_iff simp del: push_bit_of_1 push_bit_Suc dest: bit_imp_le_length)
    then show ?thesis by (simp only: 1) simp
  next
    case f: False
    then show ?thesis using False bit_imp_le_length[of c n]
      by (cases "n = 15") auto
  qed
  then show ?thesis by (intro bit_eqI) simp
qed

lemma crc_shift8_xor: "crc_shift8 (a XOR b) = crc_shift8 a XOR crc_shift8 b"
  by (simp add: crc_shift8_unfold crc_bit_xor)

lemma crc_shift8_eq_0: "crc_shift8 c = 0 \<Longrightarrow> c = 0"
  by (auto simp: crc_shift8_unfold dest!: crc_bit_eq_0)

lemma crc_shift8_inj: "crc_shift8 a = crc_shift8 b \<longleftrightarrow> a = b"
  by (metis crc_shift8_eq_0 crc_shift8_xor xor_word_eq_0)

lemma crc_shift_small:
  "k \<le> 8 \<Longrightarrow> (crc_bit ^^ k) (ucast (b :: u8)) = push_bit k (ucast b)"
proof (induction k)
  case 0
  then show ?case by simp
next
  case (Suc k)
  have "\<not> bit (push_bit k (ucast b :: u16)) 15"
    using Suc.prems bit_imp_le_length[of b "15 - k"] by (auto simp: bit_simps)
  then show ?case using Suc by (simp add: crc_bit_def push_bit_push_bit)
qed

lemma split_u16: "c = push_bit 8 (ucast (ucast (drop_bit 8 c) :: u8)) XOR ucast (ucast c :: u8)" for c :: u16
  by (rule bit_eqI) (auto simp: bit_simps)

lemma and_FF: "unat (x AND 0xFF) = unat (ucast x :: u8)" for x :: u16
proof -
  have "x AND 0xFF = take_bit 8 x"
    by (simp add: take_bit_eq_mask mask_eq_exp_minus_1)
  then show ?thesis
    by (simp add: unsigned_ucast_eq unsigned_take_bit_eq)
qed

lemma crc_step_eq: "crc_step c b = crc_byte c b"
proof -
  let ?h = "ucast (drop_bit 8 c) :: u8" and ?l = "ucast c :: u8"
  have idx: "(ucast (drop_bit 8 c XOR ucast b) :: u8) = ?h XOR b"
    by (rule bit_eqI) (auto simp: bit_simps)
  have pb: "push_bit 8 (ucast (?h XOR b)) = push_bit 8 (ucast ?h) XOR push_bit 8 (ucast b :: u16)"
    by (rule bit_eqI) (auto simp: bit_simps)
  have lo: "crc_shift8 (ucast ?l) = push_bit 8 (ucast ?l)"
    using crc_shift_small [of 8 ?l] by (simp add: crc_shift8_def)
  have pc: "push_bit 8 c = push_bit 8 (ucast ?l)"
    by (rule bit_eqI) (auto simp: bit_simps)
  have "crc_step c b = push_bit 8 c XOR crc_shift8 (push_bit 8 (ucast (?h XOR b)))"
    by (simp add: crc_step_def and_FF idx CRC16Table_nth)
  also have "\<dots> = crc_shift8 (ucast ?l) XOR crc_shift8 (push_bit 8 (ucast ?h) XOR push_bit 8 (ucast b))"
    by (simp only: lo pc pb)
  also have "\<dots> = crc_shift8 ((push_bit 8 (ucast ?h) XOR ucast ?l) XOR push_bit 8 (ucast b))"
    by (simp only: crc_shift8_xor ac_simps)
  also have "\<dots> = crc_byte c b"
    by (simp add: split_u16 [symmetric] crc_byte_def)
  finally show ?thesis .
qed

subsection \<open>The loop\<close>

lemma fCrcBlk_loop_eq:
  "ii \<le> nLength \<Longrightarrow> nLength \<le> length pData \<Longrightarrow>
     fCrcBlk_loop pData nLength ii c = Inr (foldl crc_byte c (take (nLength - ii) (drop ii pData)))"
proof (induction pData nLength ii c rule: fCrcBlk_loop.induct)
  case (1 pData nLength ii c)
  show ?case
  proof (cases "ii < nLength")
    case True
    then have "take (nLength - ii) (drop ii pData) =
        pData ! ii # take (nLength - Suc ii) (drop (Suc ii) pData)"
      using "1.prems" by (simp add: take_Suc_conv_app_nth Cons_nth_drop_Suc [symmetric] Suc_diff_Suc [symmetric])
    with True 1 show ?thesis
      by (simp add: fCrcBlk_loop.simps [of pData nLength ii c] fetch_def crc_step_eq)
  next
    case False
    with "1.prems" show ?thesis by (subst fCrcBlk_loop.simps) simp
  qed
qed

lemma fCrcBlk_loop_fault:
  "ii \<le> length pData \<Longrightarrow> length pData < nLength \<Longrightarrow>
     fCrcBlk_loop pData nLength ii c = Inl Out_of_bounds"
proof (induction pData nLength ii c rule: fCrcBlk_loop.induct)
  case (1 pData nLength ii c)
  then show ?case
    by (subst fCrcBlk_loop.simps) (auto simp: fetch_def)
qed

lemma fCrcBlk_eq:
  "fCrcBlk pData n = (if unat n \<le> length pData then Inr (crc_ref (take (unat n) pData))
                      else Inl Out_of_bounds)"
  by (simp add: fCrcBlk_def crc_ref_def fCrcBlk_loop_eq fCrcBlk_loop_fault)

subsection \<open>Error detection\<close>

lemma crc_byte_inj_state: "crc_byte c b = crc_byte c' b \<longleftrightarrow> c = c'"
  by (simp add: crc_byte_def crc_shift8_inj xor_right_cancel)

lemma foldl_crc_inj: "foldl crc_byte c bs = foldl crc_byte c' bs \<longleftrightarrow> c = c'"
  by (induction bs arbitrary: c c') (simp_all add: crc_byte_inj_state)

lemma crc_two_bytes_inj:
  assumes "crc_byte (crc_byte c a) b = crc_byte (crc_byte c a') b'"
  shows "a = a' \<and> b = b'"
proof -
  let ?p = "\<lambda>x :: u8. push_bit 8 (ucast x) :: u16"
  have px: "?p (x XOR y) = ?p x XOR ?p y" for x y
    by (rule bit_eqI) (auto simp: bit_simps)
  have lo: "?p x AND 0xFF = 0" for x
  proof -
    have "?p x AND 0xFF = take_bit 8 (?p x)"
      by (simp add: take_bit_eq_mask mask_eq_exp_minus_1)
    then show ?thesis by (simp add: take_bit_push_bit)
  qed
  have "crc_shift8 (c XOR ?p a) XOR ?p b = crc_shift8 (c XOR ?p a') XOR ?p b'"
    using assms by (simp add: crc_byte_def crc_shift8_inj)
  then have "crc_shift8 (?p a) XOR ?p b = crc_shift8 (?p a') XOR ?p b'"
    by (simp add: crc_shift8_xor xor.assoc xor_left_cancel)
  then have "crc_shift8 (?p a) XOR crc_shift8 (?p a') = ?p b XOR ?p b'"
    by (rule xor_word_swap)
  then have eq: "crc_shift8 (?p (a XOR a')) = ?p (b XOR b')"
    by (simp only: px crc_shift8_xor)
  have low: "CRC16Table ! unat (a XOR a') AND 0xFF = 0"
    by (simp only: CRC16Table_nth eq lo)
  have mem: "CRC16Table ! unat (a XOR a') \<in> set CRC16Table"
    using unsigned_less [of "a XOR a'", where 'a = nat]
    by (intro nth_mem) (simp add: CRC16Table_def)
  have "CRC16Table ! unat (a XOR a') = 0"
    by (rule CRC16Table_low_byte [OF mem low])
  then have z: "crc_shift8 (?p (a XOR a')) = 0"
    by (simp only: CRC16Table_nth)
  from z have "?p (a XOR a') = 0" by (rule crc_shift8_eq_0)
  moreover from z have "?p (b XOR b') = 0" by (simp only: eq)
  moreover have "x = 0" if "?p x = 0" for x
  proof (rule bit_eqI)
    fix n
    have "bit (?p x) (8 + n) = bit (0 :: u16) (8 + n)" using that by simp
    then show "bit x n = bit (0 :: u8) n"
      by (auto simp: bit_simps dest: bit_imp_le_length)
  qed
  ultimately show ?thesis by (metis xor_word_eq_0)
qed

text \<open>
  Two messages of the same length that differ only inside a window of at most two
  adjacent bytes (any error burst of up to 9 bits, and every burst of 16 bits that is
  byte aligned) have different checksums.
\<close>

lemma crc_ref_window:
  assumes "crc_ref (xs @ u @ ys) = crc_ref (xs @ v @ ys)"
    and "length u = length v" and "length v \<le> 2"
  shows "u = v"
proof -
  have eq: "foldl crc_byte (foldl crc_byte 0x1D0F xs) u = foldl crc_byte (foldl crc_byte 0x1D0F xs) v"
    using assms(1) by (simp add: crc_ref_def foldl_crc_inj)
  consider "v = []" | b where "v = [b]" | a b where "v = [a, b]"
    using assms(3) by (cases v; cases "tl v") auto
  then show ?thesis
  proof cases
    case 1
    then show ?thesis using assms(2) by simp
  next
    case (2 b)
    then obtain a where "u = [a]" using assms(2) by (cases u) auto
    then show ?thesis using eq 2 crc_two_bytes_inj [of "foldl crc_byte 0x1D0F xs" a 0 b 0] by simp
  next
    case (3 c d)
    then obtain a b where "u = [a, b]" using assms(2) by (cases u; cases "tl u") auto
    then show ?thesis using eq 3 crc_two_bytes_inj by simp
  qed
qed

end
