(* ===== verification/Osdp.thy ===== *)
theory Osdp
  imports Crc16
begin

text \<open>
  The OSDP packet layer (\<open>readers/osdp/osdp.c\<close>, \<open>readers/osdp/osdp.h\<close>): building packets,
  checking and decoding the answers of a reader. Packets and answers are the structs of
  the header, with their 64 byte arrays; the length fields keep their C widths. Printing under
  \<open>OSDP_VERBOSE_LEVEL\<close> is left out.
\<close>

subsection \<open>Packets and answers\<close>

definition PACKETLEN :: nat where
  "PACKETLEN = 64"

record osdp_packet =
  pkt_len :: u32
  pkt_data :: "u8 list"

record osdp_response =
  rsp_response :: u8
  rsp_payloadlen :: u8
  rsp_payload :: "u8 list"

abbreviation (input) osdp_POLL :: u8 where "osdp_POLL \<equiv> 0x60"
abbreviation (input) osdp_LED :: u8 where "osdp_LED \<equiv> 0x69"
abbreviation (input) osdp_BUZ :: u8 where "osdp_BUZ \<equiv> 0x6a"
abbreviation (input) osdp_COMSET :: u8 where "osdp_COMSET \<equiv> 0x6e"
abbreviation (input) osdp_ACK :: u8 where "osdp_ACK \<equiv> 0x40"
abbreviation (input) osdp_NACK :: u8 where "osdp_NACK \<equiv> 0x41"
abbreviation (input) osdp_RAW :: u8 where "osdp_RAW \<equiv> 0x50"
abbreviation (input) osdp_KPD :: u8 where "osdp_KPD \<equiv> 0x53"
abbreviation (input) osdp_COM :: u8 where "osdp_COM \<equiv> 0x54"

abbreviation (input) BLACK :: u8 where "BLACK \<equiv> 0"
abbreviation (input) RED :: u8 where "RED \<equiv> 1"
abbreviation (input) GREEN :: u8 where "GREEN \<equiv> 2"
abbreviation (input) AMBER :: u8 where "AMBER \<equiv> 3"

subsection \<open>Building packets\<close>

definition crclen_packet :: "osdp_packet \<Rightarrow> osdp_packet cres" where
  "crclen_packet p =
     (let n = pkt_len p + 2;
          d1 = (pkt_data p)[2 := ucast (n AND 0xff), 3 := ucast (drop_bit 8 n)]
      in cbind (fCrcBlk d1 (ucast (n - 2))) (\<lambda>crc.
         cbind (store d1 (unat (n - 2)) (ucast (crc AND 0xff))) (\<lambda>d2.
         cbind (store d2 (unat (n - 1)) (ucast (drop_bit 8 crc))) (\<lambda>d3.
         Inr (p\<lparr>pkt_len := n, pkt_data := d3\<rparr>)))))"

text \<open>The arguments \<open>data\<close> and \<open>datalen\<close> are one list; \<open>NULL, 0\<close> is the empty list.\<close>

definition fill_packet :: "osdp_packet \<Rightarrow> u8 \<Rightarrow> u8 \<Rightarrow> u8 list \<Rightarrow> osdp_packet cres" where
  "fill_packet p address command payload =
     (let d1 = (pkt_data p)[0 := 0x53, 1 := address, 2 := 0, 3 := 0, 4 := 0x04, 5 := command]
      in cbind (memcpy d1 6 payload 0 (length payload)) (\<lambda>d2.
         crclen_packet (p\<lparr>pkt_len := 6 + of_nat (length payload), pkt_data := d2\<rparr>)))"

definition ledset :: "osdp_packet \<Rightarrow> u8 \<Rightarrow> u8 \<Rightarrow> u8 \<Rightarrow> bool \<Rightarrow> u32 \<Rightarrow> osdp_packet cres" where
  "ledset p address lednum color blink blink_time =
     (let ledy = [0, lednum, 0, 0, 0, 0, 0, 0, 0, 0, 0, 0, 0, 0];
          ledy = (if blink_time \<noteq> 0
                  then let l = ledy[2 := 2, 3 := 1, 4 := 1, 5 := color,
                                    7 := ucast blink_time, 8 := ucast (drop_bit 8 blink_time)]
                       in if \<not> blink then l[6 := color] else l
                  else let l = ledy[2 := 1, 9 := 1, 10 := 1, 11 := 1, 12 := color]
                       in if \<not> blink then l[13 := color] else l)
      in fill_packet p address osdp_LED ledy)"

definition beepset :: "osdp_packet \<Rightarrow> u8 \<Rightarrow> u8 \<Rightarrow> u8 \<Rightarrow> u8 \<Rightarrow> osdp_packet cres" where
  "beepset p address on_time off_time count =
     fill_packet p address osdp_BUZ [0, 2, on_time, off_time, count]"

text \<open>
  \<open>comset\<close> assigns two elements of its five byte local array; \<open>stack\<close> is what the
  other three hold.
\<close>

definition comset :: "u8 list \<Rightarrow> osdp_packet \<Rightarrow> u8 \<Rightarrow> u8 \<Rightarrow> u32 \<Rightarrow> osdp_packet cres" where
  "comset stack p oldaddress newaddress baudrate =
     (let payload = (take 5 stack)[0 := newaddress, 1 := ucast baudrate]
      in fill_packet p oldaddress osdp_COMSET payload)"

subsection \<open>Sending and receiving\<close>

text \<open>
  \<open>send_packet\<close> hands \<open>len\<close> bytes of \<open>data\<close> to \<open>write\<close>, whose result is \<open>ret\<close>; the
  model returns those bytes and the function's result.
\<close>

definition send_packet :: "osdp_packet \<Rightarrow> int \<Rightarrow> (u8 list \<times> bool) cres" where
  "send_packet p ret =
     (if unat (pkt_len p) \<le> length (pkt_data p)
      then Inr (take (unat (pkt_len p)) (pkt_data p), \<not> ret < 0)
      else Inl Out_of_bounds)"

text \<open>
  The result of \<open>read(fd, packet->data, PACKETLEN)\<close>: \<open>None\<close> for an error, else the
  bytes read, of which the system call stores at most \<open>PACKETLEN\<close>.
\<close>

type_synonym read_result = "u8 list option"

definition recv_packet :: "osdp_packet \<Rightarrow> read_result \<Rightarrow> bool \<times> osdp_packet" where
  "recv_packet p rd =
     (case rd of
        None \<Rightarrow> (False, p)
      | Some bytes \<Rightarrow>
          let bs = take PACKETLEN bytes; len = length bs
          in if 0 < len
             then let q = p\<lparr>pkt_len := of_nat len, pkt_data := bs @ drop len (pkt_data p)\<rparr>
                  in (pkt_data q ! 0 = 0x53, q)
             else (False, p))"

definition process_packet ::
  "osdp_packet \<Rightarrow> osdp_response \<Rightarrow> (bool \<times> osdp_packet \<times> osdp_response) cres" where
  "process_packet packet response =
     (let d = pkt_data packet;
          len = push_bit 8 (ucast (d ! 3)) OR ucast (d ! 2);
          p = packet\<lparr>pkt_len := len\<rparr>
      in cbind (fCrcBlk d (ucast (len - 2))) (\<lambda>crc.
         cbind (fetch d (unat (len - 1))) (\<lambda>hi.
         cbind (fetch d (unat (len - 2))) (\<lambda>lo.
           if crc \<noteq> push_bit 8 (ucast hi) OR ucast lo
           then Inr (False, p, response)
           else let r = response\<lparr>rsp_payloadlen := 0, rsp_response := d ! 5\<rparr>
                in if d ! 5 = osdp_ACK then Inr (True, p, r)
                   else if d ! 5 = osdp_NACK then Inr (True, p, r)
                   else if d ! 5 = osdp_RAW then
                     cbind (memcpy (rsp_payload r) 0 d 6 (unat (len - 8))) (\<lambda>pl.
                     Inr (True, p, r\<lparr>rsp_payload := pl, rsp_payloadlen := ucast (len - 8)\<rparr>))
                   else if d ! 5 = osdp_KPD then
                     let pinlen = d ! 7
                     in cbind (memcpy (rsp_payload r) 0 d 8 (unat pinlen)) (\<lambda>pl.
                        Inr (True, p, r\<lparr>rsp_payload := pl, rsp_payloadlen := pinlen\<rparr>))
                   else if d ! 5 = osdp_COM then
                     cbind (memcpy (rsp_payload r) 0 d 6 (unat (len - 8))) (\<lambda>pl.
                     Inr (True, p, r\<lparr>rsp_payload := pl, rsp_payloadlen := ucast (len - 8)\<rparr>))
                   else Inr (False, p, r)))))"

subsection \<open>The frame format\<close>

text \<open>
  What a packet looks like on the line: start byte, address, length (low byte first),
  control byte, command, payload and the checksum of all that, low byte first. This is the
  specification \<open>fill_packet\<close> is compared with.
\<close>

definition osdp_frame :: "u8 \<Rightarrow> u8 \<Rightarrow> u8 list \<Rightarrow> u8 list" where
  "osdp_frame address command payload =
     (let body = [0x53, address, of_nat (length payload + 8), 0, 0x04, command] @ payload;
          crc = crc_ref body
      in body @ [ucast crc, ucast (drop_bit 8 crc)])"

lemma length_osdp_frame [simp]: "length (osdp_frame a c pl) = length pl + 8"
  by (simp add: osdp_frame_def Let_def)

lemma list_6_split:
  assumes "6 \<le> length xs"
  obtains x0 x1 x2 x3 x4 x5 where "xs = x0 # x1 # x2 # x3 # x4 # x5 # drop 6 xs"
proof -
  have "xs = take 6 xs @ drop 6 xs" by simp
  moreover have "take 6 xs = [xs!0, xs!1, xs!2, xs!3, xs!4, xs!5]"
    using assms by (intro nth_equalityI) (auto simp: less_Suc_eq numeral_eq_Suc)
  ultimately show thesis by (metis append_Cons append_Nil that)
qed

lemma unat_of_nat_small: 
  "k < 65536 \<Longrightarrow> unat (of_nat k :: u32) = k" "k < 65536 \<Longrightarrow> unat (of_nat k :: u16) = k"
  "k < 256 \<Longrightarrow> unat (of_nat k :: u8) = k"
  by (simp_all add: unat_of_nat)

lemma and_FF_u32: "ucast (x AND 0xff) = (ucast x :: u8)" for x :: u32
proof -
  have "x AND 0xff = take_bit 8 x"
    by (simp add: take_bit_eq_mask mask_eq_exp_minus_1)
  then show ?thesis by (simp) (rule bit_eqI, auto simp: bit_simps)
qed
lemma and_FF_u16: "ucast (x AND 0xff) = (ucast x :: u8)" for x :: u16
proof -
  have "x AND 0xff = take_bit 8 x"
    by (simp add: take_bit_eq_mask mask_eq_exp_minus_1)
  then show ?thesis by (simp) (rule bit_eqI, auto simp: bit_simps)
qed

lemma drop_bit_small: "k < 256 \<Longrightarrow> drop_bit 8 (of_nat k :: u32) = 0"
  by (simp only: word_unat_eq_iff unat_drop_bit_eq unat_of_nat unat_0) (simp add: drop_bit_eq_div)

lemma ucast_of_nat_small:
  "k < 256 \<Longrightarrow> (ucast (of_nat k :: u32) :: u8) = of_nat k"
  "k < 65536 \<Longrightarrow> (ucast (of_nat k :: u32) :: u16) = of_nat k"
  by (simp_all add: unsigned_of_nat take_bit_nat_eq_self)

lemma crclen_packet_eq:
  assumes l: "length (pkt_data p) = 64" and k: "pkt_len p = of_nat k" and "6 \<le> k" and k64: "k \<le> 64"
  shows "crclen_packet p =
     (let d = (pkt_data p)[2 := of_nat (k + 2), 3 := 0]; crc = crc_ref (take k d)
      in if k \<le> 62 then Inr (p\<lparr>pkt_len := of_nat (k + 2),
                  pkt_data := d[k := ucast crc, Suc k := ucast (drop_bit 8 crc)]\<rparr>)
         else Inl Out_of_bounds)"
proof -
  have 0: "(of_nat k :: u32) + 2 = of_nat (k + 2)" by simp
  have 1: "(of_nat (k + 2) :: u32) - 2 = of_nat k" by simp
  have 2: "(of_nat (k + 2) :: u32) - 1 = of_nat (Suc k)" by simp
  have 3: "ucast (of_nat k :: u32) = (of_nat k :: u16)" "ucast (of_nat (k + 2) :: u32) = (of_nat (k + 2) :: u8)"
    using k64 ucast_of_nat_small(1) [of "k + 2"] by (simp_all add: ucast_of_nat_small)
  have 4: "drop_bit 8 (of_nat (k + 2) :: u32) = 0"
    by (rule drop_bit_small) (use k64 in simp)
  show ?thesis
    unfolding crclen_packet_def Let_def k 0 1 2 3 4 and_FF_u32 and_FF_u16
    using l k64 by (simp add: fCrcBlk_eq unat_of_nat_small store_def del: of_nat_Suc of_nat_add)
qed

lemma fill_packet_eq:
  assumes l: "length (pkt_data p) = 64"
  shows "fill_packet p a c pl =
     (if length pl \<le> 56
      then Inr (p\<lparr>pkt_len := of_nat (length pl + 8),
                  pkt_data := osdp_frame a c pl @ drop (length pl + 8) (pkt_data p)\<rparr>)
      else Inl Out_of_bounds)"
proof -
  let ?n = "length pl"
  define r where "r = drop 6 (pkt_data p)"
  obtain x0 x1 x2 x3 x4 x5 where d: "pkt_data p = x0 # x1 # x2 # x3 # x4 # x5 # r"
    by (rule list_6_split [of "pkt_data p"]) (auto simp: l r_def intro: that)
  have r: "length r = 58" using l by (simp add: r_def)
  have d1: "(pkt_data p)[0 := 0x53, 1 := a, 2 := 0, 3 := 0, 4 := 0x04, 5 := c] = [0x53, a, 0, 0, 4, c] @ r"
    by (simp add: d)
  have dr: "drop (6 + ?n) (0x53 # a # 0 # 0 # 4 # c # r) = drop ?n r"
    by (simp add: numeral_eq_Suc)
  show ?thesis
  proof (cases "?n \<le> 58")
    case False
    then show ?thesis
      unfolding fill_packet_def Let_def d1 using r by (simp add: memcpy_def)
  next
    case True
    let ?p = "p\<lparr>pkt_len := 6 + of_nat ?n, pkt_data := [0x53, a, 0, 0, 4, c] @ pl @ drop ?n r\<rparr>"
    have eq: "fill_packet p a c pl = crclen_packet ?p"
      unfolding fill_packet_def Let_def d1 using True r by (simp add: memcpy_def dr)
    have "pkt_len ?p = of_nat (6 + ?n)" by simp
    note c = crclen_packet_eq [OF _ this]
    show ?thesis
    proof (cases "?n \<le> 56")
      case n56: True
      then have y: "drop ?n r = r ! ?n # r ! Suc ?n # drop (?n + 2) r"
        using r by (simp add: Cons_nth_drop_Suc)
      show ?thesis
        unfolding eq using n56 True r
        by (subst c) (simp_all add: y osdp_frame_def Let_def list_update_append d
               numeral_eq_Suc)
    next
      case False
      then show ?thesis unfolding eq using True r by (subst c) (simp_all add: Let_def)
    qed
  qed
qed
subsection \<open>Decoding, in terms of numbers\<close>

text \<open>
  The length field as a number, the checksum stored behind the frame, and what
  \<open>process_packet\<close> does by cases over them.
\<close>

definition frame_len :: "u8 list \<Rightarrow> nat" where
  "frame_len d = unat (d ! 2) + 256 * unat (d ! 3)"

definition stored_crc :: "u8 list \<Rightarrow> u16" where
  "stored_crc d = push_bit 8 (ucast (d ! (frame_len d - 1))) OR ucast (d ! (frame_len d - 2))"

lemma frame_len_less: "frame_len d < 65536"
  using unsigned_less [of "d ! 2", where 'a = nat] unsigned_less [of "d ! 3", where 'a = nat]
  by (simp add: frame_len_def)

lemma word_len_eq: "push_bit 8 (ucast hi) OR ucast lo = (of_nat (unat lo + 256 * unat hi) :: u32)"
  for hi lo :: u8
proof -
  have "push_bit 8 (ucast hi) OR ucast lo = push_bit 8 (ucast hi) + (ucast lo :: u32)"
    by (rule disjunctive_add [symmetric]) (auto simp: bit_simps dest: bit_imp_le_length)
  then show ?thesis by (simp add: push_bit_eq_mult) 
qed

lemma unat_pred_small: "k \<le> n \<Longrightarrow> n < 65536 \<Longrightarrow> k < 65536 \<Longrightarrow> unat (of_nat n - of_nat k :: u32) = n - k"
  by (metis of_nat_diff unat_of_nat_small(1) le_less_trans diff_le_self)

lemma unat_pred_wrap: "n < k \<Longrightarrow> k < 65536 \<Longrightarrow> 65536 \<le> unat (of_nat n - of_nat k :: u32)"
proof -
  assume a: "n < k" "k < 65536"
  have "(of_nat (2 ^ 32 + n - k) :: u32) = of_nat (2 ^ 32) + of_nat n - of_nat k"
    using a by (subst of_nat_diff) (simp_all only: of_nat_add, simp)
  also have "(of_nat (2 ^ 32) :: u32) = 0" by simp
  finally have e: "(of_nat n - of_nat k :: u32) = of_nat (2 ^ 32 + n - k)"
    by (simp only: add_0)
  have "unat (of_nat n - of_nat k :: u32) = 2 ^ 32 + n - k"
    unfolding e by (subst unat_of_nat) (use a in simp)
  then show ?thesis using a by simp
qed

lemma process_packet_eq:
  assumes l: "length (pkt_data p) = 64"
  defines "d \<equiv> pkt_data p" and "L \<equiv> frame_len (pkt_data p)"
  shows "process_packet p r =
    (if L < 2 \<or> 64 < L then Inl Out_of_bounds
     else if crc_ref (take (L - 2) d) \<noteq> stored_crc d
     then Inr (False, p\<lparr>pkt_len := of_nat L\<rparr>, r)
     else let q = p\<lparr>pkt_len := of_nat L\<rparr>; s = r\<lparr>rsp_payloadlen := 0, rsp_response := d ! 5\<rparr>
       in if d ! 5 = osdp_ACK \<or> d ! 5 = osdp_NACK then Inr (True, q, s)
          else if d ! 5 = osdp_RAW \<or> d ! 5 = osdp_COM
          then (if L < 8 then Inl Out_of_bounds
                else cbind (memcpy (rsp_payload r) 0 d 6 (L - 8)) (\<lambda>pl.
                  Inr (True, q, s\<lparr>rsp_payload := pl, rsp_payloadlen := of_nat (L - 8)\<rparr>)))
          else if d ! 5 = osdp_KPD
          then cbind (memcpy (rsp_payload r) 0 d 8 (unat (d ! 7))) (\<lambda>pl.
                  Inr (True, q, s\<lparr>rsp_payload := pl, rsp_payloadlen := d ! 7\<rparr>))
          else Inr (False, q, s))"
proof -
  have len: "push_bit 8 (ucast (d ! 3)) OR ucast (d ! 2) = (of_nat L :: u32)"
    by (simp add: word_len_eq L_def d_def frame_len_def)
  have ld: "length d = 64" by (simp add: d_def l)
  have L: "L < 65536" by (simp add: L_def frame_len_less)
  consider (short) "L < 2" | (long) "64 < L" | (ok) "2 \<le> L" "L \<le> 64" by linarith
  then show ?thesis
  proof cases
    case short
    then have "L = 0 \<or> L = 1" by auto
    moreover have "(ucast (- 1 :: u32) :: u16) = 0xFFFF"
      by (simp add: unsigned_minus_1_eq_mask mask_eq_exp_minus_1)
    ultimately have "unat (ucast (of_nat L - 2 :: u32) :: u16) > 64"
      by auto
    then show ?thesis using short ld unfolding process_packet_def d_def [symmetric]
      by (simp add: Let_def len fCrcBlk_eq)
  next
    case long
    then have i: "unat (of_nat L - 2 :: u32) = L - 2" "unat (of_nat L - 1 :: u32) = L - 1"
      using unat_pred_small [of 2 L] unat_pred_small [of 1 L] L by simp_all
    have "(ucast (of_nat L - 2 :: u32) :: u16) = of_nat (L - 2)"
      using L long ucast_of_nat_small(2) [of "L - 2"] by (simp add: of_nat_diff)
    then show ?thesis using long ld L i unfolding process_packet_def d_def [symmetric]
      by (auto simp: Let_def len fCrcBlk_eq unat_of_nat_small fetch_def)
  next
    case ok
    then have i: "unat (of_nat L - 2 :: u32) = L - 2" "unat (of_nat L - 1 :: u32) = L - 1"
      "8 \<le> L \<Longrightarrow> unat (of_nat L - 8 :: u32) = L - 8"
      using unat_pred_small [of 2 L] unat_pred_small [of 1 L] unat_pred_small [of 8 L] L by simp_all
    have s: "L < 8 \<Longrightarrow> 65536 \<le> unat (of_nat L - 8 :: u32)" using unat_pred_wrap [of L 8] by simp
    have u: "(ucast (of_nat L - 2 :: u32) :: u16) = of_nat (L - 2)"
      "8 \<le> L \<Longrightarrow> (ucast (of_nat L - 8 :: u32) :: u8) = of_nat (L - 8)"
      using L ok ucast_of_nat_small(2) [of "L - 2"] ucast_of_nat_small(1) [of "L - 8"] by (simp_all add: of_nat_diff)
    have "fCrcBlk d (of_nat (L - 2)) = Inr (crc_ref (take (L - 2) d))"
      using ok ld unat_of_nat_small(2) [of "L - 2"] unfolding fCrcBlk_eq by simp
    moreover have "fetch d (L - 1) = Inr (d ! (L - 1))" "fetch d (L - 2) = Inr (d ! (L - 2))"
      using ok ld by (simp_all add: fetch_def)
    moreover have "push_bit 8 (ucast (d ! (L - 1))) OR ucast (d ! (L - 2)) = stored_crc d"
      by (simp add: stored_crc_def L_def d_def)
    moreover have "L < 8 \<Longrightarrow> memcpy (rsp_payload r) 0 d 6 (unat (of_nat L - 8 :: u32)) = Inl Out_of_bounds"
      using s ld by (simp add: memcpy_def)
    ultimately show ?thesis using ok unfolding process_packet_def d_def [symmetric]
      by (auto simp: Let_def len i u not_less)
  qed
qed


text \<open>Reading back what \<open>fill_packet\<close> wrote.\<close>

lemma u16_bytes: "push_bit 8 (ucast (ucast (drop_bit 8 c) :: u8)) OR ucast (ucast c :: u8) = c" for c :: u16
  by (rule bit_eqI) (auto simp: bit_simps)

lemma filled_frame:
  fixes a c :: u8 and pl rest :: "u8 list"
  assumes "length pl \<le> 56"
  defines "d \<equiv> osdp_frame a c pl @ rest"
  shows "frame_len d = length pl + 8" "d ! 5 = c" "stored_crc d = crc_ref (take (6 + length pl) d)"
    "take (length pl) (drop 6 d) = pl"
proof -
  let ?b = "[0x53, a, of_nat (length pl + 8), 0, 4, c] @ pl"
  have d: "d = ?b @ [ucast (crc_ref ?b), ucast (drop_bit 8 (crc_ref ?b))] @ rest"
    by (simp add: d_def osdp_frame_def Let_def)
  have d2: "d ! 2 = of_nat (length pl + 8)" "d ! 3 = 0" "d ! 5 = c" by (simp_all add: d)
  then show L: "frame_len d = length pl + 8"
    using assms(1) unat_of_nat_small(3) [of "length pl + 8"] by (simp add: frame_len_def)
  show "d ! 5 = c" by (rule d2)
  have b: "length ?b = 6 + length pl" by simp
  have "d ! (6 + length pl) = ucast (crc_ref ?b)" "d ! (7 + length pl) = ucast (drop_bit 8 (crc_ref ?b))"
    unfolding d by (simp_all only: nth_append b) simp_all
  then have "stored_crc d = crc_ref ?b"
    unfolding stored_crc_def L by (simp add: u16_bytes)
  moreover have "take (length xs) (xs @ ys) = xs" for xs ys :: "u8 list" by simp
  then have "take (6 + length pl) d = ?b" unfolding d b [symmetric] .
  ultimately show "stored_crc d = crc_ref (take (6 + length pl) d)" by simp
  show "take (length pl) (drop 6 d) = pl" unfolding d by simp
qed

lemma osdp_fill_process:
  assumes "length (pkt_data p) = 64" and "length (rsp_payload r) = 64" and "length pl \<le> 56"
    and "fill_packet p a c pl = Inr q" and "c = osdp_RAW \<or> c = osdp_COM"
  shows "process_packet q r = Inr (True, q,
     r\<lparr>rsp_response := c, rsp_payloadlen := of_nat (length pl),
       rsp_payload := pl @ drop (length pl) (rsp_payload r)\<rparr>)"
proof -
  have q: "q = p\<lparr>pkt_len := of_nat (length pl + 8),
                  pkt_data := osdp_frame a c pl @ drop (length pl + 8) (pkt_data p)\<rparr>"
    using assms(1,3,4) by (simp add: fill_packet_eq)
  have l: "length (pkt_data q) = 64" using assms(1,3) by (simp add: q)
  note f = filled_frame [OF assms(3), of a c "drop (length pl + 8) (pkt_data p)"]
  have m: "memcpy (rsp_payload r) 0 (osdp_frame a c pl @ drop (length pl + 8) (pkt_data p)) 6 (length pl)
      = Inr (pl @ drop (length pl) (rsp_payload r))"
    using assms(1-3) f(4) by (simp add: memcpy_def)
  show ?thesis
    using assms(5)
  proof (elim disjE)
    assume "c = osdp_RAW"
    with assms(3) f m show ?thesis by (subst process_packet_eq [OF l]) (simp add: q Let_def)
  next
    assume "c = osdp_COM"
    with assms(3) f m show ?thesis by (subst process_packet_eq [OF l]) (simp add: q Let_def)
  qed
qed

lemma process_packet_faults_iff:
  assumes "length (pkt_data p) = 64" and "length (rsp_payload r) = 64"
  defines "d \<equiv> pkt_data p" and "L \<equiv> frame_len (pkt_data p)"
  shows "process_packet p r = Inl f \<longleftrightarrow> f = Out_of_bounds \<and>
     (L < 2 \<or> 64 < L \<or> crc_ref (take (L - 2) d) = stored_crc d \<and>
        (L < 8 \<and> d ! 5 \<in> {osdp_RAW, osdp_COM} \<or> d ! 5 = osdp_KPD \<and> 56 < unat (d ! 7)))"
proof -
  have ld: "length d = 64" by (simp add: d_def assms(1))
  have KPD: "memcpy (rsp_payload r) 0 d 8 n = Inl f \<longleftrightarrow> f = Out_of_bounds \<and> 56 < n" for n
    using ld assms(2) by (auto simp: memcpy_def)
  have RAW: "memcpy (rsp_payload r) 0 d 6 (L - 8) = Inl f \<longleftrightarrow> False" if "L \<le> 64"
    using ld assms(2) that by (auto simp: memcpy_def)
  have bind: "cbind m k = Inl f \<longleftrightarrow> m = Inl f" if "\<And>x. k x \<noteq> Inl f" for m :: "u8 list cres" and k :: "_ \<Rightarrow> (bool \<times> osdp_packet \<times> osdp_response) cres"
    using that by (cases m) auto
  note eq = process_packet_eq [OF assms(1), of r, folded d_def L_def]
  consider "L < 2 \<or> 64 < L" | "2 \<le> L" "L \<le> 64" "crc_ref (take (L - 2) d) \<noteq> stored_crc d"
    | "2 \<le> L" "L \<le> 64" "crc_ref (take (L - 2) d) = stored_crc d" by linarith
  then show ?thesis
  proof cases
    case 1
    then show ?thesis unfolding eq by auto
  next
    case 2
    then show ?thesis unfolding eq by simp
  next
    case 3
    then show ?thesis unfolding eq
      by (cases "d ! 5 = osdp_KPD"; cases "d ! 5 = osdp_RAW"; cases "d ! 5 = osdp_COM")
        (simp_all add: Let_def bind KPD RAW eq_commute [of Out_of_bounds f])
  qed
qed

lemma process_packet_rejects_window:
  assumes "length (pkt_data p) = 64" and "2 \<le> frame_len (pkt_data p)" "frame_len (pkt_data p) \<le> 64"
    and "pkt_data p = xs @ u @ ys" and "crc_ref (take (frame_len (pkt_data p) - 2) (pkt_data p)) = stored_crc (pkt_data p)"
    and "4 \<le> length xs" and "length xs + length u + 2 \<le> frame_len (pkt_data p)"
    and "length u \<le> 2" and "length v = length u" and "v \<noteq> u"
  shows "process_packet (p\<lparr>pkt_data := xs @ v @ ys\<rparr>) r =
     Inr (False, p\<lparr>pkt_data := xs @ v @ ys, pkt_len := of_nat (frame_len (pkt_data p))\<rparr>, r)"
proof -
  let ?q = "p\<lparr>pkt_data := xs @ v @ ys\<rparr>" and ?L = "frame_len (pkt_data p)"
  have L: "frame_len (xs @ v @ ys) = ?L"
    using assms(4,6) by (simp add: frame_len_def nth_append)
  have nth: "(xs @ w @ ys) ! i = ys ! (i - (length xs + length u))"
    if "length w = length u" "length xs + length u \<le> i" for w i
    using that by (auto simp: nth_append)
  have s: "stored_crc (xs @ v @ ys) = stored_crc (xs @ u @ ys)"
    using assms(4,7,9) by (simp add: stored_crc_def L nth)
  let ?zs = "take (?L - 2 - length xs - length u) ys"
  have tk: "take (?L - 2) (xs @ w @ ys) = xs @ w @ ?zs" if "length w = length u" for w
    using assms(7) that by simp
  have "crc_ref (xs @ v @ ?zs) \<noteq> crc_ref (xs @ u @ ?zs)"
    using crc_ref_window [of xs v ?zs u] assms(8-10) by auto
  then have "crc_ref (take (?L - 2) (xs @ v @ ys)) \<noteq> crc_ref (take (?L - 2) (xs @ u @ ys))"
    by (simp only: tk assms(9) not_False_eq_True)
  then have "crc_ref (take (?L - 2) (xs @ v @ ys)) \<noteq> stored_crc (xs @ v @ ys)"
    using s assms(4,5) by simp
  then show ?thesis
    using assms by (subst process_packet_eq) (auto simp: L)
qed

subsection \<open>Properties\<close>

definition blank_packet :: osdp_packet where
  "blank_packet = \<lparr>pkt_len = 0, pkt_data = replicate 64 0\<rparr>"

definition blank_response :: osdp_response where
  "blank_response = \<lparr>rsp_response = 0, rsp_payloadlen = 0, rsp_payload = replicate 64 0\<rparr>"

text \<open>
  Property C25. The table driven \<open>fCrcBlk\<close> computes the bit-serial CRC with generator
  0x1021 and start value 0x1D0F of the first \<open>nLength\<close> bytes, and reads outside the
  buffer exactly when \<open>nLength\<close> exceeds it.
\<close>

theorem fCrcBlk_computes_crc:
  "fCrcBlk pData nLength =
     (if unat nLength \<le> length pData then Inr (crc_ref (take (unat nLength) pData))
      else Inl Out_of_bounds)"
  by (rule fCrcBlk_eq)

text \<open>
  Property C31. \<open>fill_packet\<close> fits a payload of up to 56 bytes into the packet, as the
  frame with start byte, address, length, control, command, payload and checksum, leaving
  the rest of the array alone; a longer payload makes it write outside the array.
\<close>

theorem fill_packet_frame:
  assumes "length (pkt_data p) = PACKETLEN"
  shows "fill_packet p a c pl =
     (if length pl \<le> 56
      then Inr (p\<lparr>pkt_len := of_nat (length pl + 8),
                  pkt_data := osdp_frame a c pl @ drop (length pl + 8) (pkt_data p)\<rparr>)
      else Inl Out_of_bounds)"
  using assms by (simp add: PACKETLEN_def fill_packet_eq)

theorem fill_packet_frame_witness:
  "fill_packet blank_packet 0x7f osdp_POLL [] =
     Inr \<lparr>pkt_len = 8, pkt_data = osdp_frame 0x7f osdp_POLL [] @ replicate 56 0\<rparr>"
  using fill_packet_frame [of blank_packet "0x7f" osdp_POLL "[]"]
  by (simp add: blank_packet_def PACKETLEN_def)

text \<open>
  Property C14. A packet that \<open>fill_packet\<close> built with a RAW or COM code is accepted by
  \<open>process_packet\<close>, which returns exactly the payload, its length and the code.
\<close>

theorem fill_then_process:
  assumes "length (pkt_data p) = PACKETLEN" and "length (rsp_payload r) = PACKETLEN"
    and "length pl \<le> 56" and "fill_packet p a c pl = Inr q"
    and "c = osdp_RAW \<or> c = osdp_COM"
  shows "process_packet q r = Inr (True, q,
     r\<lparr>rsp_response := c, rsp_payloadlen := of_nat (length pl),
       rsp_payload := pl @ drop (length pl) (rsp_payload r)\<rparr>)"
  using assms by (intro osdp_fill_process) (simp_all add: PACKETLEN_def)

theorem fill_then_process_witness:
  "\<exists>q. fill_packet blank_packet 0x7f osdp_RAW [0, 0, 0, 0, 0xDE, 0xAD] = Inr q \<and>
     process_packet q blank_response = Inr (True, q,
       \<lparr>rsp_response = osdp_RAW, rsp_payloadlen = 6,
        rsp_payload = [0, 0, 0, 0, 0xDE, 0xAD] @ replicate 58 0\<rparr>)"
proof -
  let ?pl = "[0, 0, 0, 0, 0xDE, 0xAD] :: u8 list"
  have "\<exists>q. fill_packet blank_packet 0x7f osdp_RAW ?pl = Inr q"
    by (subst fill_packet_eq) (simp_all add: blank_packet_def)
  then obtain q where q: "fill_packet blank_packet 0x7f osdp_RAW ?pl = Inr q" by blast
  show ?thesis
    using q fill_then_process [of blank_packet blank_response ?pl "0x7f" osdp_RAW q]
    by (auto simp: blank_packet_def blank_response_def PACKETLEN_def)
qed

text \<open>
  Property C16. \<open>process_packet\<close> runs into undefined behaviour exactly when the length
  field of the received bytes is below 2 or above the 64 bytes of the buffer, or when the
  checksum is right and the payload does not fit: a RAW or COM packet shorter than its own
  header, or a keypad packet announcing more than 56 digits.
\<close>

theorem process_packet_memory_safety:
  assumes "length (pkt_data p) = PACKETLEN" and "length (rsp_payload r) = PACKETLEN"
    and "frame_len (pkt_data p) = L"
  shows "process_packet p r = Inl f \<longleftrightarrow> f = Out_of_bounds \<and>
     (L < 2 \<or> 64 < L \<or> crc_ref (take (L - 2) (pkt_data p)) = stored_crc (pkt_data p) \<and>
        (L < 8 \<and> pkt_data p ! 5 \<in> {osdp_RAW, osdp_COM} \<or>
         pkt_data p ! 5 = osdp_KPD \<and> 56 < unat (pkt_data p ! 7)))"
  using assms process_packet_faults_iff [of p r f] by (simp add: PACKETLEN_def)

theorem process_packet_memory_safety_witness:
  "process_packet (blank_packet\<lparr>pkt_data := (replicate 64 0)[2 := 65]\<rparr>) blank_response =
     Inl Out_of_bounds"
proof -
  let ?p = "blank_packet\<lparr>pkt_data := (replicate 64 0)[2 := 65]\<rparr>"
  have "frame_len (pkt_data ?p) = 65" by (simp add: frame_len_def)
  then show ?thesis
    using process_packet_memory_safety [of ?p blank_response 65 Out_of_bounds]
    by (simp add: blank_response_def PACKETLEN_def)
qed



text \<open>
  Of the baud rate only the low byte reaches the reader: \<open>comset\<close> builds the same
  packet for all rates that agree modulo 256, and three of the five bytes it sends are whatever
  the stack holds.
\<close>

lemma comset_drops_baudrate:
  "comset stack p old new (baud + 256 * k) = comset stack p old new baud \<and>
   comset stack p old new baud = fill_packet p old osdp_COMSET ((take 5 stack)[0 := new, 1 := ucast baud])"
proof -
  have low: "unat (ucast w :: u8) = unat w mod 256" for w :: u32
    by (simp add: unsigned_ucast_eq take_bit_eq_mod)
  have "unat (baud + 256 * k) mod 256 = ((unat baud + (256 * unat k) mod 2 ^ 32) mod 2 ^ 32) mod 256"
    by (simp add: unat_word_ariths)
  also have "\<dots> = (unat baud + (256 * unat k) mod 2 ^ 32) mod 256" by (rule mod_mod_cancel) simp
  also have "\<dots> = (unat baud + ((256 * unat k) mod 2 ^ 32) mod 256) mod 256" by (simp only: mod_add_right_eq)
  also have "((256 * unat k) mod 2 ^ 32) mod 256 = 256 * unat k mod 256" by (rule mod_mod_cancel) simp
  finally have "unat (ucast (baud + 256 * k) :: u8) = unat (ucast baud :: u8)" unfolding low by simp
  then have "(ucast (baud + 256 * k) :: u8) = ucast baud" by (simp only: word_unat_eq_iff)
  then show ?thesis by (simp add: comset_def)
qed

end
