(* ===== verification/Md5.thy ===== *)
theory Md5
  imports AC_Prelude
begin

text \<open>
  The MD5 library (\<open>libs/md5.c\<close>, \<open>libs/md5.h\<close>): the context, the 64 step transformation
  of one block in the order the source lists its steps, and the three interface functions.
  It is compared with a specification after RFC 1321 (padding, blocks, a loop over tables):
  hashing in any number of \<open>MD5_Update\<close> calls gives the digest of the whole message.

  The member \<open>block\<close> of the context caches the block's words for \<open>GET\<close>; the model
  reads them from the data, as \<open>SET\<close> does.
\<close>

subsection \<open>The transformation\<close>

record md5_ctx =
  ctx_lo :: u32
  ctx_hi :: u32
  ctx_a :: u32
  ctx_b :: u32
  ctx_c :: u32
  ctx_d :: u32
  ctx_buffer :: "u8 list"

definition md5_F :: "u32 \<Rightarrow> u32 \<Rightarrow> u32 \<Rightarrow> u32" where
  "md5_F x y z = z XOR (x AND (y XOR z))"

definition md5_G :: "u32 \<Rightarrow> u32 \<Rightarrow> u32 \<Rightarrow> u32" where
  "md5_G x y z = y XOR (z AND (x XOR y))"

definition md5_H :: "u32 \<Rightarrow> u32 \<Rightarrow> u32 \<Rightarrow> u32" where
  "md5_H x y z = (x XOR y) XOR z"

definition md5_H2 :: "u32 \<Rightarrow> u32 \<Rightarrow> u32 \<Rightarrow> u32" where
  "md5_H2 x y z = x XOR (y XOR z)"

definition md5_I :: "u32 \<Rightarrow> u32 \<Rightarrow> u32 \<Rightarrow> u32" where
  "md5_I x y z = y XOR (x OR NOT z)"

text \<open>\<open>STEP(f, a, b, c, d, x, t, s)\<close>: the new value of \<open>a\<close>.\<close>

definition STEP ::
  "(u32 \<Rightarrow> u32 \<Rightarrow> u32 \<Rightarrow> u32) \<Rightarrow> u32 \<Rightarrow> u32 \<Rightarrow> u32 \<Rightarrow> u32 \<Rightarrow> u32 \<Rightarrow> u32 \<Rightarrow> nat \<Rightarrow> u32" where
  "STEP f a b c d x t s =
     (let a = a + (f b c d + x + t);
          a = push_bit s a OR drop_bit (32 - s) (a AND 0xffffffff)
      in a + b)"

text \<open>The four ways the variables rotate through it, on the tuple of all four.\<close>

type_synonym md5_state = "u32 \<times> u32 \<times> u32 \<times> u32"

fun STEP_a :: "(u32 \<Rightarrow> u32 \<Rightarrow> u32 \<Rightarrow> u32) \<Rightarrow> u32 \<Rightarrow> u32 \<Rightarrow> nat \<Rightarrow> md5_state \<Rightarrow> md5_state" where
  "STEP_a f x t s (a, b, c, d) = (STEP f a b c d x t s, b, c, d)"

fun STEP_d :: "(u32 \<Rightarrow> u32 \<Rightarrow> u32 \<Rightarrow> u32) \<Rightarrow> u32 \<Rightarrow> u32 \<Rightarrow> nat \<Rightarrow> md5_state \<Rightarrow> md5_state" where
  "STEP_d f x t s (a, b, c, d) = (a, b, c, STEP f d a b c x t s)"

fun STEP_c :: "(u32 \<Rightarrow> u32 \<Rightarrow> u32 \<Rightarrow> u32) \<Rightarrow> u32 \<Rightarrow> u32 \<Rightarrow> nat \<Rightarrow> md5_state \<Rightarrow> md5_state" where
  "STEP_c f x t s (a, b, c, d) = (a, b, STEP f c d a b x t s, d)"

fun STEP_b :: "(u32 \<Rightarrow> u32 \<Rightarrow> u32 \<Rightarrow> u32) \<Rightarrow> u32 \<Rightarrow> u32 \<Rightarrow> nat \<Rightarrow> md5_state \<Rightarrow> md5_state" where
  "STEP_b f x t s (a, b, c, d) = (a, STEP f b c d a x t s, c, d)"

text \<open>The 64 lines of \<open>body\<close>, in their order; \<open>X n\<close> is \<open>SET(n)\<close> or \<open>GET(n)\<close>.\<close>

definition md5_steps :: "(nat \<Rightarrow> u32) \<Rightarrow> (md5_state \<Rightarrow> md5_state) list" where
  "md5_steps X = [
     STEP_a md5_F (X 0) 0xd76aa478 7,
     STEP_d md5_F (X 1) 0xe8c7b756 12,
     STEP_c md5_F (X 2) 0x242070db 17,
     STEP_b md5_F (X 3) 0xc1bdceee 22,
     STEP_a md5_F (X 4) 0xf57c0faf 7,
     STEP_d md5_F (X 5) 0x4787c62a 12,
     STEP_c md5_F (X 6) 0xa8304613 17,
     STEP_b md5_F (X 7) 0xfd469501 22,
     STEP_a md5_F (X 8) 0x698098d8 7,
     STEP_d md5_F (X 9) 0x8b44f7af 12,
     STEP_c md5_F (X 10) 0xffff5bb1 17,
     STEP_b md5_F (X 11) 0x895cd7be 22,
     STEP_a md5_F (X 12) 0x6b901122 7,
     STEP_d md5_F (X 13) 0xfd987193 12,
     STEP_c md5_F (X 14) 0xa679438e 17,
     STEP_b md5_F (X 15) 0x49b40821 22,
     STEP_a md5_G (X 1) 0xf61e2562 5,
     STEP_d md5_G (X 6) 0xc040b340 9,
     STEP_c md5_G (X 11) 0x265e5a51 14,
     STEP_b md5_G (X 0) 0xe9b6c7aa 20,
     STEP_a md5_G (X 5) 0xd62f105d 5,
     STEP_d md5_G (X 10) 0x02441453 9,
     STEP_c md5_G (X 15) 0xd8a1e681 14,
     STEP_b md5_G (X 4) 0xe7d3fbc8 20,
     STEP_a md5_G (X 9) 0x21e1cde6 5,
     STEP_d md5_G (X 14) 0xc33707d6 9,
     STEP_c md5_G (X 3) 0xf4d50d87 14,
     STEP_b md5_G (X 8) 0x455a14ed 20,
     STEP_a md5_G (X 13) 0xa9e3e905 5,
     STEP_d md5_G (X 2) 0xfcefa3f8 9,
     STEP_c md5_G (X 7) 0x676f02d9 14,
     STEP_b md5_G (X 12) 0x8d2a4c8a 20,
     STEP_a md5_H (X 5) 0xfffa3942 4,
     STEP_d md5_H2 (X 8) 0x8771f681 11,
     STEP_c md5_H (X 11) 0x6d9d6122 16,
     STEP_b md5_H2 (X 14) 0xfde5380c 23,
     STEP_a md5_H (X 1) 0xa4beea44 4,
     STEP_d md5_H2 (X 4) 0x4bdecfa9 11,
     STEP_c md5_H (X 7) 0xf6bb4b60 16,
     STEP_b md5_H2 (X 10) 0xbebfbc70 23,
     STEP_a md5_H (X 13) 0x289b7ec6 4,
     STEP_d md5_H2 (X 0) 0xeaa127fa 11,
     STEP_c md5_H (X 3) 0xd4ef3085 16,
     STEP_b md5_H2 (X 6) 0x04881d05 23,
     STEP_a md5_H (X 9) 0xd9d4d039 4,
     STEP_d md5_H2 (X 12) 0xe6db99e5 11,
     STEP_c md5_H (X 15) 0x1fa27cf8 16,
     STEP_b md5_H2 (X 2) 0xc4ac5665 23,
     STEP_a md5_I (X 0) 0xf4292244 6,
     STEP_d md5_I (X 7) 0x432aff97 10,
     STEP_c md5_I (X 14) 0xab9423a7 15,
     STEP_b md5_I (X 5) 0xfc93a039 21,
     STEP_a md5_I (X 12) 0x655b59c3 6,
     STEP_d md5_I (X 3) 0x8f0ccc92 10,
     STEP_c md5_I (X 10) 0xffeff47d 15,
     STEP_b md5_I (X 1) 0x85845dd1 21,
     STEP_a md5_I (X 8) 0x6fa87e4f 6,
     STEP_d md5_I (X 15) 0xfe2ce6e0 10,
     STEP_c md5_I (X 6) 0xa3014314 15,
     STEP_b md5_I (X 13) 0x4e0811a1 21,
     STEP_a md5_I (X 4) 0xf7537e82 6,
     STEP_d md5_I (X 11) 0xbd3af235 10,
     STEP_c md5_I (X 2) 0x2ad7d2bb 15,
     STEP_b md5_I (X 9) 0xeb86d391 21]"

definition md5_SET :: "u8 list \<Rightarrow> nat \<Rightarrow> u32" where
  "md5_SET ptr n =
     ucast (ptr ! (n * 4)) OR push_bit 8 (ucast (ptr ! (n * 4 + 1))) OR
     push_bit 16 (ucast (ptr ! (n * 4 + 2))) OR push_bit 24 (ucast (ptr ! (n * 4 + 3)))"

definition md5_block :: "md5_state \<Rightarrow> u8 list \<Rightarrow> md5_state" where
  "md5_block st ptr =
     (let (saved_a, saved_b, saved_c, saved_d) = st;
          (a, b, c, d) = foldl (\<lambda>s step. step s) st (md5_steps (md5_SET ptr))
      in (a + saved_a, b + saved_b, c + saved_c, d + saved_d))"

text \<open>
  The loop \<open>do ... while (size -= 64)\<close>, returning the variables and the advanced
  pointer. A \<open>size\<close> that is no multiple of 64 would wrap around and run off the data.
\<close>

function body_loop :: "md5_state \<Rightarrow> u8 list \<Rightarrow> nat \<Rightarrow> (md5_state \<times> u8 list) cres" where
  "body_loop st ptr sz =
     (if length ptr < 64 \<or> sz < 64 then Inl Out_of_bounds
      else let st' = md5_block st ptr; ptr' = drop 64 ptr
           in if sz - 64 = 0 then Inr (st', ptr') else body_loop st' ptr' (sz - 64))"
  by pat_completeness auto
termination
  by (relation "measure (\<lambda>(st, ptr, sz). sz)") auto

declare body_loop.simps [simp del]

definition md5_body :: "md5_ctx \<Rightarrow> u8 list \<Rightarrow> nat \<Rightarrow> (md5_ctx \<times> u8 list) cres" where
  "md5_body ctx data sz =
     cbind (body_loop (ctx_a ctx, ctx_b ctx, ctx_c ctx, ctx_d ctx) data sz)
       (\<lambda>((a, b, c, d), ptr).
          Inr (ctx\<lparr>ctx_a := a, ctx_b := b, ctx_c := c, ctx_d := d\<rparr>, ptr))"

subsection \<open>The interface functions\<close>

definition MD5_Init :: "md5_ctx \<Rightarrow> md5_ctx" where
  "MD5_Init ctx = ctx\<lparr>ctx_a := 0x67452301, ctx_b := 0xefcdab89, ctx_c := 0x98badcfe,
     ctx_d := 0x10325476, ctx_lo := 0, ctx_hi := 0\<rparr>"

text \<open>The part of \<open>MD5_Update\<close> behind \<open>if (used)\<close>: whole blocks, then the rest.\<close>

definition MD5_Update_tail :: "md5_ctx \<Rightarrow> u8 list \<Rightarrow> md5_ctx cres" where
  "MD5_Update_tail ctx data =
     cbind (if 64 \<le> length data
            then md5_body ctx data (length data - length data mod 64)
            else Inr (ctx, data)) (\<lambda>(ctx, data).
     cbind (memcpy (ctx_buffer ctx) 0 data 0 (length data)) (\<lambda>buf.
     Inr (ctx\<lparr>ctx_buffer := buf\<rparr>)))"

definition MD5_Update :: "md5_ctx \<Rightarrow> u8 list \<Rightarrow> md5_ctx cres" where
  "MD5_Update ctx data =
     (let sz = length data;
          saved_lo = ctx_lo ctx;
          lo = (saved_lo + of_nat sz) AND 0x1fffffff;
          hi = (if lo < saved_lo then ctx_hi ctx + 1 else ctx_hi ctx) + ucast (drop_bit 29 (of_nat sz :: u64));
          ctx = ctx\<lparr>ctx_lo := lo, ctx_hi := hi\<rparr>;
          used = unat (saved_lo AND 0x3f)
      in if used \<noteq> 0
         then let available = 64 - used
              in if sz < available
                 then cbind (memcpy (ctx_buffer ctx) used data 0 sz) (\<lambda>buf.
                      Inr (ctx\<lparr>ctx_buffer := buf\<rparr>))
                 else cbind (memcpy (ctx_buffer ctx) used data 0 available) (\<lambda>buf.
                      cbind (md5_body (ctx\<lparr>ctx_buffer := buf\<rparr>) buf 64) (\<lambda>(ctx, _).
                      MD5_Update_tail ctx (drop available data)))
         else MD5_Update_tail ctx data)"

definition md5_OUT :: "u32 \<Rightarrow> u8 list" where
  "md5_OUT src = [ucast src, ucast (drop_bit 8 src), ucast (drop_bit 16 src), ucast (drop_bit 24 src)]"

definition md5_zero_ctx :: md5_ctx where
  "md5_zero_ctx = \<lparr>ctx_lo = 0, ctx_hi = 0, ctx_a = 0, ctx_b = 0, ctx_c = 0, ctx_d = 0,
     ctx_buffer = replicate 64 0\<rparr>"

text \<open>The digest, and the context after the final \<open>memset\<close>.\<close>

definition MD5_Final :: "md5_ctx \<Rightarrow> (u8 list \<times> md5_ctx) cres" where
  "MD5_Final ctx =
     (let used = unat (ctx_lo ctx AND 0x3f) in
      cbind (store (ctx_buffer ctx) used 0x80) (\<lambda>buf.
      let used = used + 1;
          available = 64 - used
      in cbind (if available < 8
                then cbind (memcpy buf used (replicate available 0) 0 available) (\<lambda>buf.
                     cbind (md5_body (ctx\<lparr>ctx_buffer := buf\<rparr>) buf 64) (\<lambda>(ctx, _).
                     Inr (ctx, 0, 64)))
                else Inr (ctx\<lparr>ctx_buffer := buf\<rparr>, used, available)) (\<lambda>(ctx, used, available).
      cbind (memcpy (ctx_buffer ctx) used (replicate (available - 8) 0) 0 (available - 8)) (\<lambda>buf.
      let lo = push_bit 3 (ctx_lo ctx) in
      cbind (memcpy buf 56 (md5_OUT lo) 0 4) (\<lambda>buf.
      cbind (memcpy buf 60 (md5_OUT (ctx_hi ctx)) 0 4) (\<lambda>buf.
      cbind (md5_body (ctx\<lparr>ctx_lo := lo, ctx_buffer := buf\<rparr>) buf 64) (\<lambda>(ctx, _).
      Inr (md5_OUT (ctx_a ctx) @ md5_OUT (ctx_b ctx) @ md5_OUT (ctx_c ctx) @ md5_OUT (ctx_d ctx),
           md5_zero_ctx))))))))"

subsection \<open>The specification after RFC 1321\<close>

text \<open>
  A loop over 64 steps with the round function, the word index, the constant and the
  rotation taken from the step number; padding with 0x80, zeros and the bit count.
\<close>

definition rfc_K :: "u32 list" where
  "rfc_K = [
     0xd76aa478, 0xe8c7b756, 0x242070db, 0xc1bdceee,
     0xf57c0faf, 0x4787c62a, 0xa8304613, 0xfd469501,
     0x698098d8, 0x8b44f7af, 0xffff5bb1, 0x895cd7be,
     0x6b901122, 0xfd987193, 0xa679438e, 0x49b40821,
     0xf61e2562, 0xc040b340, 0x265e5a51, 0xe9b6c7aa,
     0xd62f105d, 0x02441453, 0xd8a1e681, 0xe7d3fbc8,
     0x21e1cde6, 0xc33707d6, 0xf4d50d87, 0x455a14ed,
     0xa9e3e905, 0xfcefa3f8, 0x676f02d9, 0x8d2a4c8a,
     0xfffa3942, 0x8771f681, 0x6d9d6122, 0xfde5380c,
     0xa4beea44, 0x4bdecfa9, 0xf6bb4b60, 0xbebfbc70,
     0x289b7ec6, 0xeaa127fa, 0xd4ef3085, 0x04881d05,
     0xd9d4d039, 0xe6db99e5, 0x1fa27cf8, 0xc4ac5665,
     0xf4292244, 0x432aff97, 0xab9423a7, 0xfc93a039,
     0x655b59c3, 0x8f0ccc92, 0xffeff47d, 0x85845dd1,
     0x6fa87e4f, 0xfe2ce6e0, 0xa3014314, 0x4e0811a1,
     0xf7537e82, 0xbd3af235, 0x2ad7d2bb, 0xeb86d391]"

definition rfc_f :: "nat \<Rightarrow> u32 \<Rightarrow> u32 \<Rightarrow> u32 \<Rightarrow> u32" where
  "rfc_f i b c d =
     (if i < 16 then (b AND c) OR (NOT b AND d)
      else if i < 32 then (b AND d) OR (c AND NOT d)
      else if i < 48 then b XOR c XOR d
      else c XOR (b OR NOT d))"

definition rfc_g :: "nat \<Rightarrow> nat" where
  "rfc_g i =
     (if i < 16 then i
      else if i < 32 then (5 * i + 1) mod 16
      else if i < 48 then (3 * i + 5) mod 16
      else (7 * i) mod 16)"

definition rfc_s :: "nat \<Rightarrow> nat" where
  "rfc_s i =
     (if i < 16 then [7, 12, 17, 22] ! (i mod 4)
      else if i < 32 then [5, 9, 14, 20] ! (i mod 4)
      else if i < 48 then [4, 11, 16, 23] ! (i mod 4)
      else [6, 10, 15, 21] ! (i mod 4))"

fun rfc_step :: "(nat \<Rightarrow> u32) \<Rightarrow> md5_state \<Rightarrow> nat \<Rightarrow> md5_state" where
  "rfc_step X (a, b, c, d) i =
     (d, b + word_rotl (rfc_s i) (a + rfc_f i b c d + X (rfc_g i) + rfc_K ! i), b, c)"

fun rfc_block :: "md5_state \<Rightarrow> u8 list \<Rightarrow> md5_state" where
  "rfc_block (a0, b0, c0, d0) ptr =
     (let (a, b, c, d) = foldl (rfc_step (md5_SET ptr)) (a0, b0, c0, d0) [0..<64]
      in (a + a0, b + b0, c + c0, d + d0))"

function rfc_blocks :: "md5_state \<Rightarrow> u8 list \<Rightarrow> md5_state" where
  "rfc_blocks st msg =
     (if length msg < 64 then st else rfc_blocks (rfc_block st (take 64 msg)) (drop 64 msg))"
  by pat_completeness auto
termination
  by (relation "measure (\<lambda>(st, msg). length msg)") auto

declare rfc_blocks.simps [simp del]

definition rfc_init :: md5_state where
  "rfc_init = (0x67452301, 0xefcdab89, 0x98badcfe, 0x10325476)"

text \<open>The bit count is taken modulo \<open>2^64\<close>, low word first.\<close>

definition rfc_length :: "nat \<Rightarrow> u8 list" where
  "rfc_length n =
     (let bits = of_nat (8 * n) :: u64 in md5_OUT (ucast bits) @ md5_OUT (ucast (drop_bit 32 bits)))"

definition rfc_padding :: "nat \<Rightarrow> u8 list" where
  "rfc_padding n =
     0x80 # replicate (if n mod 64 < 56 then 55 - n mod 64 else 119 - n mod 64) 0 @ rfc_length n"

definition rfc_md5 :: "u8 list \<Rightarrow> u8 list" where
  "rfc_md5 msg =
     (case rfc_blocks rfc_init (msg @ rfc_padding (length msg)) of
        (a, b, c, d) \<Rightarrow> md5_OUT a @ md5_OUT b @ md5_OUT c @ md5_OUT d)"

subsection \<open>The transformation meets its specification\<close>

lemma md5_F_eq: "md5_F b c d = (b AND c) OR (NOT b AND d)"
  by (rule bit_eqI) (auto simp: md5_F_def bit_simps)

lemma md5_G_eq: "md5_G b c d = (b AND d) OR (c AND NOT d)"
  by (rule bit_eqI) (auto simp: md5_G_def bit_simps)

lemma md5_H2_eq: "md5_H2 = md5_H"
  by (simp add: fun_eq_iff md5_H_def md5_H2_def xor.assoc)

lemma rotl_eq:
  fixes a :: u32
  assumes "0 < s" "s < 32"
  shows "push_bit s a OR drop_bit (32 - s) (a AND 0xffffffff) = word_rotl s a"
proof -
  have "a AND 0xffffffff = a AND mask 32" by (simp add: mask_eq_exp_minus_1)
  also have "\<dots> = a" by (rule bit_eqI) (simp add: bit_simps)
  finally have a: "a AND 0xffffffff = a" .
  have m: "(n + (32 - s)) mod 32 = (if n < s then n + 32 - s else n - s)" if "n < 32" for n
  proof (cases "n < s")
    case False
    then have "n + (32 - s) = (n - s) + 32" using assms by simp
    then show ?thesis using False that by (simp only: mod_add_self2) simp
  qed (use assms in simp)
  show ?thesis
    unfolding a
  proof (rule bit_word_eqI)
    fix n assume n: "n < LENGTH(32)"
    have "bit (word_rotl s a) n = bit a ((n + (32 - s)) mod 32)"
      using n assms by (simp add: bit_word_rotl_iff)
    also have "\<dots> = bit (push_bit s a OR drop_bit (32 - s) a) n"
      using n m [of n] assms by (auto simp: bit_simps not_less add.commute dest: bit_imp_le_length)
    finally show "bit (push_bit s a OR drop_bit (32 - s) a) n = bit (word_rotl s a) n" by simp
  qed
qed

lemma STEP_eq:
  "0 < s \<Longrightarrow> s < 32 \<Longrightarrow> STEP f a b c d x t s = b + word_rotl s (a + f b c d + x + t)"
  unfolding STEP_def Let_def by (subst rotl_eq) (simp_all add: ac_simps)

definition md5_row :: "(nat \<Rightarrow> u32) \<Rightarrow> nat \<Rightarrow> (md5_state \<Rightarrow> md5_state) list" where
  "md5_row X i =
     [STEP_a (rfc_f i) (X (rfc_g i)) (rfc_K ! i) (rfc_s i),
      STEP_d (rfc_f (i + 1)) (X (rfc_g (i + 1))) (rfc_K ! (i + 1)) (rfc_s (i + 1)),
      STEP_c (rfc_f (i + 2)) (X (rfc_g (i + 2))) (rfc_K ! (i + 2)) (rfc_s (i + 2)),
      STEP_b (rfc_f (i + 3)) (X (rfc_g (i + 3))) (rfc_K ! (i + 3)) (rfc_s (i + 3))]"

lemma rfc_s_bounds: "0 < rfc_s i \<and> rfc_s i < 32"
proof -
  have "i mod 4 = 0 \<or> i mod 4 = 1 \<or> i mod 4 = 2 \<or> i mod 4 = 3" by presburger
  then show ?thesis by (auto simp: rfc_s_def)
qed

lemma md5_row_eq:
  "foldl (\<lambda>s step. step s) st (md5_row X i) = foldl (rfc_step X) st [i, i + 1, i + 2, i + 3]"
  using rfc_s_bounds by (cases st) (simp add: md5_row_def STEP_eq)

lemma rfc_f_eq: "i < 16 \<Longrightarrow> rfc_f i = md5_F" "16 \<le> i \<Longrightarrow> i < 32 \<Longrightarrow> rfc_f i = md5_G"
  "32 \<le> i \<Longrightarrow> i < 48 \<Longrightarrow> rfc_f i = md5_H" "48 \<le> i \<Longrightarrow> rfc_f i = md5_I"
  by (simp_all add: fun_eq_iff rfc_f_def md5_F_eq md5_G_eq md5_H_def md5_I_def xor.assoc)

lemma upt_64: "[0..<64] = concat (map (\<lambda>i. [i, i + 1, i + 2, i + 3])
   [0, 4, 8, 12, 16, 20, 24, 28, 32, 36, 40, 44, 48, 52, 56, 60])"
  by (simp add: upt_conv_Cons)

lemma md5_steps_rows: "md5_steps X = concat (map (md5_row X)
   [0, 4, 8, 12, 16, 20, 24, 28, 32, 36, 40, 44, 48, 52, 56, 60])"
  unfolding md5_steps_def md5_row_def
  by (simp add: rfc_f_eq rfc_g_def rfc_s_def rfc_K_def md5_H2_eq) (simp add: numeral_2_eq_2)

lemma foldl_rows:
  "foldl (\<lambda>s step. step s) st (concat (map (md5_row X) is)) =
   foldl (rfc_step X) st (concat (map (\<lambda>i. [i, i + 1, i + 2, i + 3]) is))"
  by (induction "is" arbitrary: st) (simp_all only: list.map concat.simps foldl_append md5_row_eq foldl_Nil)

lemma md5_block_eq: "md5_block st ptr = rfc_block st ptr"
  by (cases st) (simp add: md5_block_def md5_steps_rows foldl_rows upt_64 del: upt_conv_Cons list.map concat.simps)
lemma rfc_blocks_short: "length xs < 64 \<Longrightarrow> rfc_blocks st xs = st"
  by (subst rfc_blocks.simps) simp

lemma rfc_blocks_append:
  "length xs mod 64 = 0 \<Longrightarrow> rfc_blocks st (xs @ ys) = rfc_blocks (rfc_blocks st xs) ys"
proof (induction st xs rule: rfc_blocks.induct)
  case (1 st xs)
  show ?case
  proof (cases "length xs < 64")
    case True
    with "1.prems" have "xs = []" by simp
    then show ?thesis by (simp add: rfc_blocks_short)
  next
    case False
    then have m: "length (drop 64 xs) mod 64 = 0"
      using "1.prems" by (simp add: mod_diff_eq le_mod_geq)
    from False have "rfc_blocks st (xs @ ys) = rfc_blocks (rfc_block st (take 64 xs)) (drop 64 xs @ ys)"
      by (subst rfc_blocks.simps) simp
    also have "\<dots> = rfc_blocks (rfc_blocks (rfc_block st (take 64 xs)) (drop 64 xs)) ys"
      using False m by (intro "1.IH") simp_all
    also have "rfc_blocks (rfc_block st (take 64 xs)) (drop 64 xs) = rfc_blocks st xs"
      using False by (subst (2) rfc_blocks.simps) simp
    finally show ?thesis .
  qed
qed

lemma rfc_blocks_one: "length xs = 64 \<Longrightarrow> rfc_blocks st xs = rfc_block st xs"
  by (subst rfc_blocks.simps) (simp add: rfc_blocks_short)

lemma rfc_blocks_rest:
  "length xs mod 64 = 0 \<Longrightarrow> length ys < 64 \<Longrightarrow> rfc_blocks st (xs @ ys) = rfc_blocks st xs"
  by (simp add: rfc_blocks_append rfc_blocks_short)

lemma md5_steps_cong: "(\<And>n. n < 16 \<Longrightarrow> X n = Y n) \<Longrightarrow> md5_steps X = md5_steps Y"
  by (simp add: md5_steps_def)

lemma md5_block_take: "64 \<le> length ptr \<Longrightarrow> md5_block st ptr = rfc_block st (take 64 ptr)"
proof -
  assume "64 \<le> length ptr"
  then have "md5_steps (md5_SET ptr) = md5_steps (md5_SET (take 64 ptr))"
    by (intro md5_steps_cong) (simp add: md5_SET_def)
  then have "md5_block st ptr = md5_block st (take 64 ptr)"
    by (simp add: md5_block_def)
  then show ?thesis by (simp add: md5_block_eq)
qed

lemma body_loop_eq:
  "sz mod 64 = 0 \<Longrightarrow> 0 < sz \<Longrightarrow> sz \<le> length ptr \<Longrightarrow>
     body_loop st ptr sz = Inr (rfc_blocks st (take sz ptr), drop sz ptr)"
proof (induction st ptr sz rule: body_loop.induct)
  case (1 st ptr sz)
  then have l: "64 \<le> sz" "64 \<le> length ptr" by auto
  show ?case
  proof (cases "sz = 64")
    case True
    then show ?thesis using l by (subst body_loop.simps) (simp add: md5_block_take rfc_blocks_one)
  next
    case False
    then have s: "(sz - 64) mod 64 = 0" "0 < sz - 64" using "1.prems" l by (auto simp: le_mod_geq)
    have "body_loop st ptr sz = body_loop (rfc_block st (take 64 ptr)) (drop 64 ptr) (sz - 64)"
      using l s by (subst body_loop.simps) (simp add: md5_block_take)
    also have "\<dots> = Inr (rfc_blocks (rfc_block st (take 64 ptr)) (take (sz - 64) (drop 64 ptr)), drop sz ptr)"
      using "1.IH" [OF _ refl refl] l s "1.prems" by (simp add: md5_block_take)
    also have "rfc_blocks (rfc_block st (take 64 ptr)) (take (sz - 64) (drop 64 ptr)) = rfc_blocks st (take sz ptr)"
      using l "1.prems" by (subst (2) rfc_blocks.simps) (simp add: drop_take min_def)
    finally show ?thesis .
  qed
qed

definition ctx_state :: "md5_ctx \<Rightarrow> md5_state" where
  "ctx_state ctx = (ctx_a ctx, ctx_b ctx, ctx_c ctx, ctx_d ctx)"

definition with_state :: "md5_state \<Rightarrow> md5_ctx \<Rightarrow> md5_ctx" where
  "with_state st ctx = (case st of (a, b, c, d) \<Rightarrow> ctx\<lparr>ctx_a := a, ctx_b := b, ctx_c := c, ctx_d := d\<rparr>)"

lemma with_state_simps [simp]:
  "ctx_state (with_state st ctx) = st" "ctx_lo (with_state st ctx) = ctx_lo ctx"
  "ctx_hi (with_state st ctx) = ctx_hi ctx" "ctx_buffer (with_state st ctx) = ctx_buffer ctx"
  "ctx_state (ctx\<lparr>ctx_buffer := b\<rparr>) = ctx_state ctx" "ctx_state (ctx\<lparr>ctx_lo := lo\<rparr>) = ctx_state ctx"
  "ctx_state (ctx\<lparr>ctx_hi := hi\<rparr>) = ctx_state ctx"
  by (simp_all add: with_state_def ctx_state_def split: prod.split)

lemma md5_body_eq:
  "sz mod 64 = 0 \<Longrightarrow> 0 < sz \<Longrightarrow> sz \<le> length data \<Longrightarrow>
     md5_body ctx data sz =
     Inr (with_state (rfc_blocks (ctx_state ctx) (take sz data)) ctx, drop sz data)"
  by (simp add: md5_body_def body_loop_eq with_state_def ctx_state_def split: prod.split)

lemma MD5_Update_tail_eq:
  assumes "length (ctx_buffer ctx) = 64"
  obtains ctx' where "MD5_Update_tail ctx data = Inr ctx'"
    and "ctx_state ctx' = rfc_blocks (ctx_state ctx) data"
    and "ctx_lo ctx' = ctx_lo ctx" and "ctx_hi ctx' = ctx_hi ctx"
    and "length (ctx_buffer ctx') = 64"
    and "take (length data mod 64) (ctx_buffer ctx') = drop (length data - length data mod 64) data"
proof -
  let ?m = "length data mod 64" and ?k = "length data - length data mod 64"
  have k: "?k mod 64 = 0" by (simp add: minus_mod_eq_mult_div)
  have "rfc_blocks st (take ?k data @ drop ?k data) = rfc_blocks st (take ?k data)" for st
    by (rule rfc_blocks_rest) (simp_all add: k)
  then have r: "rfc_blocks st (take ?k data) = rfc_blocks st data" for st by simp
  show thesis
  proof (cases "64 \<le> length data")
    case True
    then have "0 < ?k" by (metis mod_less_divisor zero_less_diff less_le_trans zero_less_numeral)
    then have b: "md5_body ctx data ?k = Inr (with_state (rfc_blocks (ctx_state ctx) data) ctx, drop ?k data)"
      using md5_body_eq [OF k, of data ctx] by (simp add: r)
    show thesis
      by (rule that [of "with_state (rfc_blocks (ctx_state ctx) data) ctx
            \<lparr>ctx_buffer := drop ?k data @ drop ?m (ctx_buffer ctx)\<rparr>"])
        (use True assms in \<open>simp_all add: MD5_Update_tail_def b memcpy_def\<close>)
  next
    case False
    then have "rfc_blocks st data = st" for st by (simp add: rfc_blocks_short)
    then show thesis
      by (intro that [of "ctx\<lparr>ctx_buffer := data @ drop ?m (ctx_buffer ctx)\<rparr>"])
        (use False assms in \<open>simp_all add: MD5_Update_tail_def memcpy_def\<close>)
  qed
qed


text \<open>What a context stands for: the message hashed so far.\<close>

definition md5_rep :: "md5_ctx \<Rightarrow> u8 list \<Rightarrow> bool" where
  "md5_rep ctx msg \<longleftrightarrow>
     length (ctx_buffer ctx) = 64 \<and>
     ctx_lo ctx = of_nat (length msg mod 2 ^ 29) \<and> ctx_hi ctx = of_nat (length msg div 2 ^ 29) \<and>
     ctx_state ctx = rfc_blocks rfc_init msg \<and>
     take (length msg mod 64) (ctx_buffer ctx) = drop (length msg - length msg mod 64) msg"

lemma md5_rep_Init: "length (ctx_buffer ctx) = 64 \<Longrightarrow> md5_rep (MD5_Init ctx) []"
  by (simp add: md5_rep_def MD5_Init_def ctx_state_def rfc_init_def rfc_blocks_short)

lemma and_mask_29: "x AND 0x1fffffff = take_bit 29 x" for x :: u32
  by (simp add: take_bit_eq_mask mask_eq_exp_minus_1)

lemma used_eq: "unat (of_nat (n mod 2 ^ 29) AND 0x3f :: u32) = n mod 64"
proof -
  have "(of_nat (n mod 2 ^ 29) AND 0x3f :: u32) = take_bit 6 (of_nat (n mod 2 ^ 29))"
    by (simp add: take_bit_eq_mask mask_eq_exp_minus_1)
  then have "unat (of_nat (n mod 2 ^ 29) AND 0x3f :: u32) = (n mod 2 ^ 29) mod 2 ^ 32 mod 2 ^ 6"
    by (simp only: unsigned_take_bit_eq unat_of_nat take_bit_nat_def) simp
  also have "\<dots> = n mod 2 ^ 6"
    by (simp add: mod_mod_cancel)
  finally show ?thesis by simp
qed

lemma counter_lo: "(of_nat (n mod 2 ^ 29) + of_nat k :: u32) AND 0x1fffffff = of_nat ((n + k) mod 2 ^ 29)"
proof -
  have "unat ((of_nat (n mod 2 ^ 29) + of_nat k :: u32) AND 0x1fffffff) = (n mod 2 ^ 29 + k) mod 2 ^ 32 mod 2 ^ 29"
    by (simp only: and_mask_29 unsigned_take_bit_eq unat_of_nat take_bit_nat_def flip: of_nat_add) simp
  also have "\<dots> = (n mod 2 ^ 29 + k) mod 2 ^ 29"
    by (rule mod_mod_cancel) simp
  also have "\<dots> = (n + k) mod 2 ^ 29" by (rule mod_add_left_eq)
  also have "\<dots> = unat (of_nat ((n + k) mod 2 ^ 29) :: u32)"
    using mod_less_divisor[of "2^29" "n+k"] by (subst unat_of_nat) (simp)
  finally show ?thesis by (simp only: word_unat_eq_iff)
qed

lemma mod_carry:
  fixes a b m :: nat
  assumes "a < m" "b < m"
  shows "(a + b) mod m < a \<longleftrightarrow> m \<le> a + b" and "(a + b) div m = (if m \<le> a + b then 1 else 0)"
proof -
  have "(a + b) mod m = a + b - m" "(a + b) div m = 1" if "m \<le> a + b"
    using that assms by (simp_all add: le_mod_geq le_div_geq)
  then show "(a + b) mod m < a \<longleftrightarrow> m \<le> a + b" "(a + b) div m = (if m \<le> a + b then 1 else 0)"
    using assms by (cases "m \<le> a + b"; auto)+
qed

lemma counter_carry:
  "(of_nat ((n + k) mod 2 ^ 29) :: u32) < of_nat (n mod 2 ^ 29) \<longleftrightarrow> 2 ^ 29 \<le> n mod 2 ^ 29 + k mod 2 ^ 29"
proof -
  have "(of_nat ((n + k) mod 2 ^ 29) :: u32) < of_nat (n mod 2 ^ 29) \<longleftrightarrow> (n + k) mod 2 ^ 29 < n mod 2 ^ 29"
    by (simp add: word_less_nat_alt unat_of_nat)
  also have "\<dots> \<longleftrightarrow> (n mod 2 ^ 29 + k mod 2 ^ 29) mod 2 ^ 29 < n mod 2 ^ 29"
    by (simp only: mod_add_eq)
  also have "\<dots> \<longleftrightarrow> 2 ^ 29 \<le> n mod 2 ^ 29 + k mod 2 ^ 29"
    by (rule mod_carry(1)) simp_all
  finally show ?thesis .
qed

lemma ucast_of_nat_u64: "ucast (of_nat j :: u64) = (of_nat j :: u32)"
  by (rule bit_word_eqI) (simp add: bit_simps)

lemma counter_hi:
  assumes "k < 2 ^ 64"
  shows "(if (of_nat ((n + k) mod 2 ^ 29) :: u32) < of_nat (n mod 2 ^ 29) then of_nat (n div 2 ^ 29) + 1
      else of_nat (n div 2 ^ 29)) + ucast (drop_bit 29 (of_nat k :: u64)) = (of_nat ((n + k) div 2 ^ 29) :: u32)"
proof -
  have "drop_bit 29 (of_nat k :: u64) = of_nat (k div 2 ^ 29)"
    using assms by (simp only: word_unat_eq_iff unat_drop_bit_eq unat_of_nat) (simp add: drop_bit_eq_div div_less_dividend)
  then have 1: "ucast (drop_bit 29 (of_nat k :: u64)) = (of_nat (k div 2 ^ 29) :: u32)"
    by (simp only: ucast_of_nat_u64)
  have 2: "(n + k) div 2 ^ 29 = n div 2 ^ 29 + k div 2 ^ 29 + (if 2 ^ 29 \<le> n mod 2 ^ 29 + k mod 2 ^ 29 then 1 else 0)"
    by (simp only: div_add1_eq [of n k] mod_carry(2) mod_less_divisor zero_less_power zero_less_numeral)
  show ?thesis unfolding 1 counter_carry 2 by simp
qed

lemma md5_rep_split:
  assumes "md5_rep ctx msg"
  obtains M R where "msg = M @ R" "length M mod 64 = 0" "length R = length msg mod 64" "length R < 64"
    "take (length R) (ctx_buffer ctx) = R" "ctx_state ctx = rfc_blocks rfc_init M"
proof -
  let ?r = "length msg mod 64"
  define M where "M = take (length msg - ?r) msg"
  define R where "R = drop (length msg - ?r) msg"
  have M: "length M mod 64 = 0" by (simp add: M_def minus_mod_eq_mult_div)
  have R: "length R = ?r" by (simp add: R_def)
  have R64: "length R < 64" by (simp add: R)
  have msg: "msg = M @ R" by (simp add: M_def R_def)
  have "ctx_state ctx = rfc_blocks rfc_init msg"
    using assms by (simp add: md5_rep_def)
  also have "\<dots> = rfc_blocks rfc_init M"
    unfolding msg using M R64 by (rule rfc_blocks_rest)
  finally have st: "ctx_state ctx = rfc_blocks rfc_init M" .
  have "take ?r (ctx_buffer ctx) = R"
    using assms unfolding md5_rep_def R_def by blast
  then have b: "take (length R) (ctx_buffer ctx) = R" by (simp only: R)
  show thesis by (rule that) fact+
qed

lemma md5_rep_intro:
  assumes "ctx_lo c = of_nat (length m mod 2 ^ 29)" and "ctx_hi c = of_nat (length m div 2 ^ 29)"
    and "length (ctx_buffer c) = 64" and m: "m = Z @ Y" and Z: "length Z mod 64 = 0" and Y: "length Y < 64"
    and "ctx_state c = rfc_blocks rfc_init Z" and "take (length Y) (ctx_buffer c) = Y"
  shows "md5_rep c m"
proof -
  have "rfc_blocks rfc_init m = rfc_blocks rfc_init Z"
    unfolding m using Z Y by (rule rfc_blocks_rest)
  moreover have "length m mod 64 = length Y"
    using Z Y by (simp add: m mod_add_eq [symmetric, of "length Z"])
  moreover have "drop (length m - length Y) m = Y" by (simp add: m)
  ultimately show ?thesis
    using assms(1-3,7,8) unfolding md5_rep_def by simp
qed

lemma MD5_Update_unfold:
  assumes "md5_rep ctx msg" and "length data < 2 ^ 64"
  defines "n \<equiv> length (msg @ data)" and "r \<equiv> length msg mod 64"
  defines "c \<equiv> ctx\<lparr>ctx_lo := of_nat (n mod 2 ^ 29), ctx_hi := of_nat (n div 2 ^ 29)\<rparr>"
  shows "MD5_Update ctx data =
     (if r \<noteq> 0
      then if length data < 64 - r
           then cbind (memcpy (ctx_buffer c) r data 0 (length data)) (\<lambda>buf. Inr (c\<lparr>ctx_buffer := buf\<rparr>))
           else cbind (memcpy (ctx_buffer c) r data 0 (64 - r)) (\<lambda>buf.
                cbind (md5_body (c\<lparr>ctx_buffer := buf\<rparr>) buf 64) (\<lambda>(ctx, _).
                MD5_Update_tail ctx (drop (64 - r) data)))
      else MD5_Update_tail c data)"
proof -
  have used: "unat (ctx_lo ctx AND 0x3f) = r"
    using assms(1) by (simp only: md5_rep_def used_eq r_def)
  have lo: "(ctx_lo ctx + of_nat (length data)) AND 0x1fffffff = of_nat (n mod 2 ^ 29)"
    using assms(1) by (simp only: md5_rep_def counter_lo n_def length_append)
  have hi: "(if of_nat (n mod 2 ^ 29) < ctx_lo ctx then ctx_hi ctx + 1 else ctx_hi ctx) +
      ucast (drop_bit 29 (of_nat (length data) :: u64)) = of_nat (n div 2 ^ 29)"
    using assms(1) counter_hi [OF assms(2), of "length msg"] by (simp only: md5_rep_def n_def length_append)
  show ?thesis
    unfolding MD5_Update_def Let_def used lo hi c_def [symmetric] by (rule refl)
qed

lemma MD5_Update_tail_rep:
  assumes "length (ctx_buffer c) = 64" and "ctx_state c = rfc_blocks rfc_init Z" and Z: "length Z mod 64 = 0"
    and "ctx_lo c = of_nat (length (Z @ data) mod 2 ^ 29)" and "ctx_hi c = of_nat (length (Z @ data) div 2 ^ 29)"
  obtains c' where "MD5_Update_tail c data = Inr c'" and "md5_rep c' (Z @ data)"
proof -
  let ?n = "length data"
  let ?k = "?n - ?n mod 64"
  obtain c' where c': "MD5_Update_tail c data = Inr c'" "ctx_state c' = rfc_blocks (ctx_state c) data"
      "ctx_lo c' = ctx_lo c" "ctx_hi c' = ctx_hi c" "length (ctx_buffer c') = 64"
      "take (?n mod 64) (ctx_buffer c') = drop ?k data"
    using assms(1) by (rule MD5_Update_tail_eq)
  have k: "length (take ?k data) mod 64 = 0" by (simp add: minus_mod_eq_mult_div)
  have zk: "length (Z @ take ?k data) mod 64 = 0"
    unfolding length_append using Z k by (simp only: mod_add_eq [symmetric, of "length Z"])
  have "ctx_state c' = rfc_blocks rfc_init (Z @ data)"
    by (simp only: c' assms(2) rfc_blocks_append [OF Z])
  also have "\<dots> = rfc_blocks rfc_init ((Z @ take ?k data) @ drop ?k data)" by simp
  also have "\<dots> = rfc_blocks rfc_init (Z @ take ?k data)"
    using zk by (rule rfc_blocks_rest) simp
  finally have st: "ctx_state c' = rfc_blocks rfc_init (Z @ take ?k data)" .
  have "md5_rep c' (Z @ data)"
    by (rule md5_rep_intro [where Y = "drop ?k data", OF _ _ _ _ zk _ st])
      (simp_all only: c' assms(4,5), simp_all add: c')
  with c'(1) show thesis by (rule that)
qed

lemma MD5_Update_rep:
  assumes rep: "md5_rep ctx msg" and "length data < 2 ^ 64"
  obtains ctx' where "MD5_Update ctx data = Inr ctx'" and "md5_rep ctx' (msg @ data)"
proof -
  obtain M R where msg: "msg = M @ R" and M: "length M mod 64 = 0" and R: "length R = length msg mod 64"
    and R64: "length R < 64" and buf: "take (length R) (ctx_buffer ctx) = R"
    and st: "ctx_state ctx = rfc_blocks rfc_init M"
    using rep by (rule md5_rep_split)
  define c where "c = ctx\<lparr>ctx_lo := of_nat (length (msg @ data) mod 2 ^ 29),
      ctx_hi := of_nat (length (msg @ data) div 2 ^ 29)\<rparr>"
  have c: "length (ctx_buffer c) = 64" "ctx_state c = rfc_blocks rfc_init M" "take (length R) (ctx_buffer c) = R"
    "ctx_lo c = of_nat (length (msg @ data) mod 2 ^ 29)" "ctx_hi c = of_nat (length (msg @ data) div 2 ^ 29)"
    using rep st buf by (simp_all add: c_def md5_rep_def ctx_state_def)
  note eq = MD5_Update_unfold [OF rep assms(2), folded c_def R]
  consider (aligned) "length R = 0" | (small) "length R \<noteq> 0" "length data < 64 - length R"
    | (fill) "length R \<noteq> 0" "64 - length R \<le> length data" by linarith
  then show thesis
  proof cases
    case aligned
    then have m: "msg = M" by (simp add: msg)
    obtain c' where "MD5_Update_tail c data = Inr c'" "md5_rep c' (M @ data)"
      by (rule MD5_Update_tail_rep [OF c(1,2) M]) (simp_all add: c(4,5) m [symmetric])
    then show thesis using that m unfolding eq by (simp add: aligned)
  next
    case small
    let ?b = "R @ data @ drop (length R + length data) (ctx_buffer c)"
    have "memcpy (ctx_buffer c) (length R) data 0 (length data) = Inr ?b"
      using small c(1,3) by (simp add: memcpy_def)
    then have u: "MD5_Update ctx data = Inr (c\<lparr>ctx_buffer := ?b\<rparr>)"
      unfolding eq using small by simp
    show thesis
      by (rule that [OF u], rule md5_rep_intro [where Z = M and Y = "R @ data"])
        (use small c M in \<open>simp_all add: msg\<close>)
  next
    case fill
    let ?a = "64 - length R"
    let ?X = "R @ take ?a data"
    have "memcpy (ctx_buffer c) (length R) data 0 ?a = Inr ?X"
      using fill c(1,3) R64 by (simp add: memcpy_def)
    moreover have X: "length ?X = 64" using fill R64 by simp
    moreover have "md5_body (c\<lparr>ctx_buffer := ?X\<rparr>) ?X 64 =
        Inr (with_state (rfc_blocks (ctx_state c) ?X) (c\<lparr>ctx_buffer := ?X\<rparr>), [])"
      using X by (subst md5_body_eq) simp_all
    ultimately have u: "MD5_Update ctx data =
        MD5_Update_tail (with_state (rfc_blocks (ctx_state c) ?X) (c\<lparr>ctx_buffer := ?X\<rparr>)) (drop ?a data)"
      unfolding eq using fill by simp
    have MX: "length (M @ ?X) mod 64 = 0"
      unfolding length_append [of M] X using M by simp
    have md: "(M @ ?X) @ drop ?a data = msg @ data" by (simp add: msg)
    let ?d = "with_state (rfc_blocks (ctx_state c) ?X) (c\<lparr>ctx_buffer := ?X\<rparr>)"
    have d: "length (ctx_buffer ?d) = 64" "ctx_lo ?d = ctx_lo c" "ctx_hi ?d = ctx_hi c"
      using X by simp_all
    have ds: "ctx_state ?d = rfc_blocks rfc_init (M @ ?X)"
      by (simp only: with_state_simps c(2) rfc_blocks_append [OF M])
    obtain c' where "MD5_Update_tail ?d (drop ?a data) = Inr c'" "md5_rep c' ((M @ ?X) @ drop ?a data)"
      by (rule MD5_Update_tail_rep [OF d(1) ds MX, of "drop ?a data"]) (simp_all only: md d c(4,5))
    then show thesis using that u md by metis
  qed
qed

lemma rfc_length_eq:
  "rfc_length n = md5_OUT (push_bit 3 (of_nat (n mod 2 ^ 29))) @ md5_OUT (of_nat (n div 2 ^ 29))"
proof -
  have e: "8 * n = push_bit 3 n" by (simp add: push_bit_eq_mult)
  have m: "n mod 2 ^ 29 = take_bit 29 n" "n div 2 ^ 29 = drop_bit 29 n"
    by (simp_all only: take_bit_nat_def drop_bit_eq_div)
  have "ucast (of_nat (8 * n) :: u64) = push_bit 3 (of_nat (n mod 2 ^ 29) :: u32)"
    unfolding e m by (rule bit_word_eqI) (auto simp: bit_simps)
  moreover have "ucast (drop_bit 32 (of_nat (8 * n) :: u64)) = (of_nat (n div 2 ^ 29) :: u32)"
    unfolding e m by (rule bit_word_eqI) (auto simp: bit_simps)
  ultimately show ?thesis by (simp only: rfc_length_def Let_def)
qed

lemma length_rfc_length [simp]: "length (rfc_length n) = 8"
  by (simp add: rfc_length_def md5_OUT_def Let_def)

lemma rfc_md5_eq:
  assumes msg: "msg = M @ R" and M: "length M mod 64 = 0" and R: "length R < 64"
  defines "st \<equiv> rfc_blocks rfc_init M"
  shows "rfc_md5 msg =
    (case (if length R < 56
           then rfc_block st (R @ 0x80 # replicate (55 - length R) 0 @ rfc_length (length msg))
           else rfc_block (rfc_block st (R @ 0x80 # replicate (63 - length R) 0))
                  (replicate 56 0 @ rfc_length (length msg)))
     of (a, b, c, d) \<Rightarrow> md5_OUT a @ md5_OUT b @ md5_OUT c @ md5_OUT d)"
proof -
  have m: "length msg mod 64 = length R"
    using M R by (simp add: msg mod_add_eq [symmetric, of "length M"])
  have "rfc_blocks rfc_init (msg @ rfc_padding (length msg)) = rfc_blocks st (R @ rfc_padding (length msg))"
    by (simp add: msg st_def rfc_blocks_append [OF M])
  also have "\<dots> = (if length R < 56
           then rfc_block st (R @ 0x80 # replicate (55 - length R) 0 @ rfc_length (length msg))
           else rfc_block (rfc_block st (R @ 0x80 # replicate (63 - length R) 0))
                  (replicate 56 0 @ rfc_length (length msg)))"
  proof (cases "length R < 56")
    case True
    then show ?thesis by (simp add: rfc_padding_def m rfc_blocks_one)
  next
    case False
    let ?A = "R @ 0x80 # replicate (63 - length R) 0" and ?B = "replicate 56 0 @ rfc_length (length msg)"
    have e: "119 - length R = (63 - length R) + 56" using R by simp
    have "replicate (119 - length R) 0 = replicate (63 - length R) (0 :: u8) @ replicate 56 0"
      unfolding e by (rule replicate_add)
    then have "R @ rfc_padding (length msg) = ?A @ ?B"
      using False by (simp add: rfc_padding_def m)
    moreover have "rfc_blocks st (?A @ ?B) = rfc_block (rfc_block st ?A) ?B"
    proof -
      have l: "length ?A = 64" "length ?B = 64" using R by simp_all
      then show ?thesis by (simp only: rfc_blocks_append rfc_blocks_one mod_self)
    qed
    ultimately show ?thesis using False by (simp only: if_False)
  qed
  finally show ?thesis by (simp only: rfc_md5_def)
qed

lemma length_md5_OUT: "length (md5_OUT x) = 4"
  by (simp add: md5_OUT_def)

lemma put_length:
  "length buf = 64 \<Longrightarrow> cbind (memcpy buf 56 (md5_OUT x) 0 4) (\<lambda>buf. cbind (memcpy buf 60 (md5_OUT y) 0 4) f) =
     f (take 56 buf @ md5_OUT x @ md5_OUT y)"
  by (simp add: memcpy_def length_md5_OUT)

lemma body_one_block:
  "length blk = 64 \<Longrightarrow> md5_body c blk 64 = Inr (with_state (rfc_block (ctx_state c) blk) c, [])"
  by (subst md5_body_eq) (simp_all add: rfc_blocks_one)

lemma digest_bytes:
  "md5_OUT (ctx_a (with_state s c)) @ md5_OUT (ctx_b (with_state s c)) @ md5_OUT (ctx_c (with_state s c)) @ md5_OUT (ctx_d (with_state s c)) =
     (case s of (a, b, c, d) \<Rightarrow> md5_OUT a @ md5_OUT b @ md5_OUT c @ md5_OUT d)"
  by (simp add: with_state_def split: prod.split)

lemma MD5_Final_rep:
  assumes rep: "md5_rep ctx msg"
  shows "MD5_Final ctx = Inr (rfc_md5 msg, md5_zero_ctx)"
proof -
  obtain M R where msg: "msg = M @ R" and M: "length M mod 64 = 0" and R: "length R = length msg mod 64"
    and R64: "length R < 64" and buf: "take (length R) (ctx_buffer ctx) = R"
    and st: "ctx_state ctx = rfc_blocks rfc_init M"
    using rep by (rule md5_rep_split)
  have len: "length (ctx_buffer ctx) = 64" using rep by (simp add: md5_rep_def)
  have used: "unat (ctx_lo ctx AND 0x3f) = length R"
    using rep by (simp only: md5_rep_def used_eq R)
  let ?T = "drop (Suc (length R)) (ctx_buffer ctx)"
  have st0: "store (ctx_buffer ctx) (length R) 0x80 = Inr (R @ 0x80 # ?T)"
    using R64 len by (simp add: store_def upd_conv_take_nth_drop buf)
  have OUT: "md5_OUT (push_bit 3 (ctx_lo ctx)) @ md5_OUT (ctx_hi ctx) = rfc_length (length msg)"
    using rep by (simp only: md5_rep_def rfc_length_eq)
  note l4 = length_md5_OUT and fin = put_length and one = body_one_block and dig = digest_bytes
  show ?thesis
  proof (cases "length R < 56")
    case True
    let ?P = "R @ 0x80 # replicate (55 - length R) 0"
    let ?b = "?P @ md5_OUT (push_bit 3 (ctx_lo ctx)) @ md5_OUT (ctx_hi ctx)"
    let ?c = "ctx\<lparr>ctx_buffer := ?b, ctx_lo := push_bit 3 (ctx_lo ctx)\<rparr>"
    have lb: "length ?b = 64" "ctx_state ?c = ctx_state ctx" using True by (simp_all add: l4)
    define Q where "Q = drop 56 (R @ 0x80 # ?T)"
    have m: "memcpy (R @ 0x80 # ?T) (length R + 1) (replicate (64 - (length R + 1) - 8) 0) 0 (64 - (length R + 1) - 8)
        = Inr (?P @ Q)"
    proof -
      have "length R + 1 + (64 - (length R + 1) - 8) = 56" using True by simp
      then show ?thesis using True len by (simp add: memcpy_def Q_def del: drop_append)
    qed
    have m': "memcpy (R @ 0x80 # ?T) (Suc (length R)) (replicate (55 - length R) 0) 0 (55 - length R) = Inr (?P @ Q)"
      using m by simp
    have gap: "\<not> 63 - length R < 8" using True by simp
    have lP: "length ?P = 56" using True by simp
    have lQ: "length (?P @ Q) = 64" using True len by (simp add: Q_def)
    have tQ: "take 56 (?P @ Q) = ?P" using lP append_eq_conv_conj [of ?P Q "?P @ Q"] by simp
    have "MD5_Final ctx = Inr (case rfc_block (ctx_state ctx) ?b of (a, b, c, d) \<Rightarrow>
        md5_OUT a @ md5_OUT b @ md5_OUT c @ md5_OUT d, md5_zero_ctx)"
      using True gap unfolding MD5_Final_def Let_def used st0
      by (simp add: m' fin [OF lQ, unfolded tQ, unfolded append_assoc append_Cons] one [OF lb(1), simplified] dig)
    then show ?thesis
      using True by (simp add: rfc_md5_eq [OF msg M R64] st OUT)
  next
    case False
    let ?A = "R @ 0x80 # replicate (63 - length R) 0"
    let ?c = "with_state (rfc_block (ctx_state ctx) ?A) (ctx\<lparr>ctx_buffer := ?A\<rparr>)"
    let ?b = "replicate 56 0 @ md5_OUT (push_bit 3 (ctx_lo ctx)) @ md5_OUT (ctx_hi ctx)"
    have lb: "length ?b = 64" by (simp add: l4)
    have lA: "length ?A = 64" using R64 by simp
    have m: "memcpy (R @ 0x80 # ?T) (length R + 1) (replicate (64 - (length R + 1)) 0) 0 (64 - (length R + 1)) = Inr ?A"
      using R64 len by (simp add: memcpy_def)
    have gap: "63 - length R < 8" using False by simp
    define Q where "Q = drop 56 ?A"
    have m2: "memcpy ?A 0 (replicate 56 0) 0 56 = Inr (replicate 56 0 @ Q)"
      using lA by (simp only: memcpy_def Q_def) simp
    have lQ: "length (replicate 56 0 @ Q) = 64" using lA by (simp add: Q_def)
    have "MD5_Final ctx = Inr (case rfc_block (rfc_block (ctx_state ctx) ?A) ?b of (a, b, c, d) \<Rightarrow>
        md5_OUT a @ md5_OUT b @ md5_OUT c @ md5_OUT d, md5_zero_ctx)"
      using gap unfolding MD5_Final_def Let_def used st0
      by (simp add: m [simplified] one [OF lA, simplified] m2 [simplified] fin [OF lQ] one [OF lb, simplified] dig)
    then show ?thesis
      using False by (simp add: rfc_md5_eq [OF msg M R64] st OUT)
  qed
qed

subsection \<open>Hashing a message handed over in pieces\<close>

text \<open>
  What the callers of a digest rely on: a context stands for the message taken in so far
  (\<open>rep\<close>), an update extends it, and the end yields the hash and a wiped context.
\<close>

locale stream_digest =
  fixes digest_init :: "'c \<Rightarrow> 'c" and digest_update :: "'c \<Rightarrow> u8 list \<Rightarrow> 'c cres"
    and digest_final :: "'c \<Rightarrow> ('h \<times> 'c) cres"
    and usable :: "'c \<Rightarrow> bool" and rep :: "'c \<Rightarrow> u8 list \<Rightarrow> bool" and hash :: "u8 list \<Rightarrow> 'h" and wiped :: 'c
  assumes init_rep: "usable c \<Longrightarrow> rep (digest_init c) []"
    and update_rep: "rep c msg \<Longrightarrow> length data < 2 ^ 64 \<Longrightarrow> returns (digest_update c data) (\<lambda>c. rep c (msg @ data))"
    and final_rep: "rep c msg \<Longrightarrow> digest_final c = Inr (hash msg, wiped)"
begin

lemma updates_rep:
  assumes "rep c msg" and "\<forall>piece\<in>set pieces. length piece < 2 ^ 64"
  shows "returns (cfold (\<lambda>piece c. digest_update c piece) pieces c) (\<lambda>c. rep c (msg @ concat pieces))"
  using assms
proof (induction pieces arbitrary: c msg)
  case (Cons piece pieces)
  have "returns (digest_update c piece) (\<lambda>c. rep c (msg @ piece))"
    using Cons.prems by (intro update_rep) simp_all
  then show ?case
    unfolding cfold.simps
  proof (rule returns_bind)
    show "returns (cfold (\<lambda>piece c. digest_update c piece) pieces c') (\<lambda>c. rep c (msg @ concat (piece # pieces)))"
      if "rep c' (msg @ piece)" for c'
      using Cons.IH [OF that] Cons.prems(2) by simp
  qed
qed simp

lemma stream_hash:
  assumes "usable c" and "\<forall>piece\<in>set pieces. length piece < 2 ^ 64"
  shows "cbind (cfold (\<lambda>piece c. digest_update c piece) pieces (digest_init c)) digest_final = Inr (hash (concat pieces), wiped)"
  using updates_rep [OF init_rep [OF assms(1)] assms(2)] by (auto simp: returns_iff final_rep)

lemma one_shot:
  assumes "usable c" and "length data < 2 ^ 64"
  shows "cbind (digest_update (digest_init c) data) digest_final = Inr (hash data, wiped)"
  using update_rep [OF init_rep [OF assms(1)] assms(2)] by (auto simp: returns_iff final_rep)

end

interpretation md5_digest: stream_digest MD5_Init MD5_Update MD5_Final "\<lambda>c. length (ctx_buffer c) = 64" md5_rep rfc_md5 md5_zero_ctx
proof
  show "returns (MD5_Update c data) (\<lambda>c. md5_rep c (msg @ data))" if "md5_rep c msg" "length data < 2 ^ 64" for c msg data
    using MD5_Update_rep [OF that] by (auto simp: returns_iff)
qed (auto intro: md5_rep_Init MD5_Final_rep)

definition md5_stream :: "md5_ctx \<Rightarrow> u8 list list \<Rightarrow> (u8 list \<times> md5_ctx) cres" where
  "md5_stream ctx pieces = cbind (cfold (\<lambda>piece ctx. MD5_Update ctx piece) pieces (MD5_Init ctx)) MD5_Final"

text \<open>
  Property C24. The unrolled block function of \<open>md5.c\<close>, with its four named registers, the
  shared terms of \<open>H\<close> and \<open>H2\<close> and the rewritten \<open>F\<close> and \<open>G\<close>, computes for every state and
  every block the loop over 64 steps of RFC 1321.
\<close>

theorem md5_block_is_rfc1321: "md5_block st data = rfc_block st data"
  by (rule md5_block_eq)

text \<open>
  Property C13. Initialising a context with a 64 byte buffer, feeding it a message in any
  number of pieces of any size below 2^64, and finishing yields the RFC 1321 digest of the
  concatenated pieces, never touches memory outside the buffer, and leaves the context wiped.
\<close>

theorem md5_streaming_correct:
  assumes "length (ctx_buffer ctx) = 64" and "\<forall>piece\<in>set pieces. length piece < 2 ^ 64"
  shows "md5_stream ctx pieces = Inr (rfc_md5 (concat pieces), md5_zero_ctx)"
  unfolding md5_stream_def using assms by (rule md5_digest.stream_hash)

theorem md5_streaming_correct_witness:
  "md5_stream md5_zero_ctx [[0x31, 0x32], [], replicate 70 0x33] =
     Inr (rfc_md5 (0x31 # 0x32 # replicate 70 0x33), md5_zero_ctx)"
proof -
  have "length (ctx_buffer md5_zero_ctx) = 64"
    by (simp add: md5_zero_ctx_def)
  moreover have "\<forall>piece\<in>set [[0x31, 0x32], [], replicate 70 0x33 :: u8 list]. length piece < 2 ^ 64"
    by (simp only: list.set ball_simps list.size length_replicate) simp
  ultimately show ?thesis
    using md5_streaming_correct [of md5_zero_ctx "[[0x31, 0x32], [], replicate 70 0x33]"]
    by (simp only: concat.simps append_Cons append_Nil append_Nil2)
qed

end
