(* ===== verification/Events.thy ===== *)
theory Events
  imports AC_Prelude
begin

text \<open>
  The events of \<open>door_controller/eventSend.h\<close>. A call \<open>sendEvent(type, door, ...)\<close> is the value
  of the type's constructor with the arguments the callers pass after it; an optional string is
  a \<open>const char*\<close> that may be \<open>NULL\<close>. Rendering an event into a log line and a command is
  not part of this theory.
\<close>

datatype event =
    EVENT_AUTH_OK "string option" u32 "string option" string
  | EVENT_AUTH_ERR "string option" "string option" string
  | EVENT_AUTH_ERR_EXPIRE "string option" "string option" string
  | EVENT_AUTH_ERR_PIN "string option" "string option" string
  | EVENT_MANUAL_OPEN string
  | EVENT_DOOR_UNLOCK string u32
  | EVENT_DOOR_LOCK string u32
  | EVENT_DOOR_IS_OPEN string
  | EVENT_DOOR_IS_CLOSE string
  | EVENT_DOOR_IS_UNLOCK string
  | EVENT_DOOR_IS_LOCK string
  | EVENT_DOOR_EMERGENCY_ACTIVE string
  | EVENT_DOOR_EMERGENCY_INACTIVE string
  | EVENT_DOOR_OPEN_ALARM string u8
  | EVENT_REMOTE_CTRL "string option" "string option" "string option" "string option"

text \<open>The value of the enumeration, which \<open>sendEvent\<close> uses as an index into \<open>eventNames\<close>.\<close>

fun event_type :: "event \<Rightarrow> nat" where
  "event_type (EVENT_AUTH_OK _ _ _ _) = 0"
| "event_type (EVENT_AUTH_ERR _ _ _) = 1"
| "event_type (EVENT_AUTH_ERR_EXPIRE _ _ _) = 2"
| "event_type (EVENT_AUTH_ERR_PIN _ _ _) = 3"
| "event_type (EVENT_MANUAL_OPEN _) = 4"
| "event_type (EVENT_DOOR_UNLOCK _ _) = 5"
| "event_type (EVENT_DOOR_LOCK _ _) = 6"
| "event_type (EVENT_DOOR_IS_OPEN _) = 7"
| "event_type (EVENT_DOOR_IS_CLOSE _) = 8"
| "event_type (EVENT_DOOR_IS_UNLOCK _) = 9"
| "event_type (EVENT_DOOR_IS_LOCK _) = 10"
| "event_type (EVENT_DOOR_EMERGENCY_ACTIVE _) = 11"
| "event_type (EVENT_DOOR_EMERGENCY_INACTIVE _) = 12"
| "event_type (EVENT_DOOR_OPEN_ALARM _ _) = 13"
| "event_type (EVENT_REMOTE_CTRL _ _ _ _) = 14"

definition eventNames :: "string list" where
  "eventNames = [
     ''auth_ok'', ''auth_err'', ''auth_err_expire'', ''auth_err_pin'',
     ''manual_open'', ''door_unlock'', ''door_lock'',
     ''door_is_open'', ''door_is_close'', ''door_is_unlock'', ''door_is_lock'',
     ''door_emergency_active'', ''door_emergency_inactive'', ''door_open_alarm'']"

end
