(* ===== verification/C_Text.thy ===== *)
theory C_Text
  imports AC_Prelude
begin

text \<open>
  The text functions of the C library the program uses: character classes, \<open>atoi\<close>,
  \<open>strtoll\<close> with base 0, \<open>strtoul\<close> and \<open>strtoull\<close>, \<open>strtok_r\<close> with the separators blank, tab and newline, and the
  conversions of \<open>printf\<close>. A C string is the list of its characters without the terminator.
\<close>

subsection \<open>Character classes, \<open>atoi\<close>\<close>

definition isspace :: "char \<Rightarrow> bool" where
  "isspace c \<longleftrightarrow> of_char c = (32::nat) \<or> of_char c \<in> {9..13::nat}"

definition isdigit :: "char \<Rightarrow> bool" where
  "isdigit c \<longleftrightarrow> of_char c \<in> {48..57::nat}"

definition digits_val :: "string \<Rightarrow> int" where
  "digits_val cs = fold (\<lambda>c n. 10 * n + (of_char c - 48)) (takeWhile isdigit cs) 0"

definition atoi :: "string \<Rightarrow> int" where
  "atoi s =
     (case dropWhile isspace s of
        [] \<Rightarrow> 0
      | c # cs \<Rightarrow> if c = CHR ''-'' then - digits_val cs
                 else if c = CHR ''+'' then digits_val cs
                 else digits_val (c # cs))"

subsection \<open>\<open>strtoll(s, 0, 0)\<close>\<close>

definition digit_value :: "char \<Rightarrow> nat" where
  "digit_value c =
     (let n = of_char c
      in if 48 \<le> n \<and> n \<le> 57 then n - 48
         else if 97 \<le> n \<and> n \<le> 122 then n - 87
         else if 65 \<le> n \<and> n \<le> 90 then n - 55
         else 99)"

definition base_val :: "nat \<Rightarrow> string \<Rightarrow> int" where
  "base_val b cs = fold (\<lambda>c n. int b * n + int (digit_value c)) (takeWhile (\<lambda>c. digit_value c < b) cs) 0"

definition unsigned_val :: "string \<Rightarrow> int" where
  "unsigned_val s =
     (case s of
        a # b # cs \<Rightarrow>
          if a = CHR ''0'' then if b = CHR ''x'' \<or> b = CHR ''X'' then base_val 16 cs else base_val 8 s
          else base_val 10 s
      | _ \<Rightarrow> base_val 10 s)"

definition LLONG_MAX :: int where "LLONG_MAX = 2 ^ 63 - 1"

definition strtoll :: "string \<Rightarrow> int" where
  "strtoll s =
     (let v = (case dropWhile isspace s of
                 [] \<Rightarrow> 0
               | c # cs \<Rightarrow> if c = CHR ''-'' then - unsigned_val cs
                          else if c = CHR ''+'' then unsigned_val cs
                          else unsigned_val (c # cs))
      in max (- LLONG_MAX - 1) (min LLONG_MAX v))"

subsection \<open>\<open>strtoul\<close> and \<open>strtoull\<close>\<close>

text \<open>The base is 10 or 16; \<open>max_val\<close> is the largest value of the result type.\<close>

definition strip_0x :: "nat \<Rightarrow> string \<Rightarrow> string" where
  "strip_0x b s =
     (case s of
        x # y # cs \<Rightarrow> if b = 16 \<and> x = CHR ''0'' \<and> (y = CHR ''x'' \<or> y = CHR ''X'') then cs else s
      | _ \<Rightarrow> s)"

definition strtoul :: "int \<Rightarrow> nat \<Rightarrow> string \<Rightarrow> u64" where
  "strtoul max_val b s =
     (let s = dropWhile isspace s;
          neg = (s \<noteq> [] \<and> hd s = CHR ''-'');
          s = (if s \<noteq> [] \<and> (hd s = CHR ''-'' \<or> hd s = CHR ''+'') then tl s else s);
          v = base_val b (strip_0x b s)
      in word_of_int (if v > max_val then max_val else if neg then (- v) mod (max_val + 1) else v))"

subsection \<open>\<open>strtok_r\<close>\<close>

definition is_sep :: "char \<Rightarrow> bool" where
  "is_sep c \<longleftrightarrow> of_char c \<in> {32, 9, 10 :: nat}"

text \<open>The token, \<open>NULL\<close> at the end of the string, and the rest the next call works on.\<close>

definition strtok :: "string \<Rightarrow> string option \<times> string" where
  "strtok s =
     (let s = dropWhile is_sep s
      in if s = [] then (None, [])
         else (Some (takeWhile (\<lambda>c. \<not> is_sep c) s), drop 1 (dropWhile (\<lambda>c. \<not> is_sep c) s)))"

text \<open>The C string in a buffer: the characters before the first NUL.\<close>

definition cstring :: "string \<Rightarrow> string" where
  "cstring cs = takeWhile (\<lambda>c. c \<noteq> CHR 0x00) cs"

subsection \<open>Conversions of \<open>printf\<close>\<close>

definition hex_digit :: "bool \<Rightarrow> nat \<Rightarrow> char" where
  "hex_digit upper d =
     (if d < 10 then char_of (48 + d) else char_of ((if upper then 55 else 87) + d))"

text \<open>\<open>%u\<close> and \<open>%x\<close>: the digits of a number, and \<open>%d\<close>.\<close>

function num_string :: "nat \<Rightarrow> nat \<Rightarrow> string" where
  "num_string b n =
     (if n < b \<or> b < 2 then [hex_digit False n] else num_string b (n div b) @ [hex_digit False (n mod b)])"
  by pat_completeness auto
termination
  by (relation "measure snd") auto

declare num_string.simps [simp del]

definition dec_string :: "int \<Rightarrow> string" where
  "dec_string i = (if i < 0 then CHR ''-'' # num_string 10 (nat (- i)) else num_string 10 (nat i))"

text \<open>\<open>%s\<close>: the C library prints a null pointer as \<open>(null)\<close>.\<close>

definition str_arg :: "string option \<Rightarrow> string" where
  "str_arg s = (case s of None \<Rightarrow> ''(null)'' | Some s \<Rightarrow> s)"

text \<open>
  \<open>snprintf(buf + pos, n - pos, ...)\<close> at the end \<open>pos < n\<close> of the text: what the buffer
  holds, and the new \<open>pos\<close>, which counts the characters of the whole text.
\<close>

definition snprintf_at :: "nat \<Rightarrow> string \<Rightarrow> nat \<Rightarrow> string \<Rightarrow> string \<times> nat" where
  "snprintf_at n buf pos text = (take (n - 1) (take pos buf @ text), pos + length text)"

subsection \<open>Lemmas\<close>

lemma digit_value_hex: "d < 16 \<Longrightarrow> digit_value (hex_digit upper d) = d"
  by (auto simp: digit_value_def hex_digit_def Let_def)

lemma base_val_append:
  "\<forall>c\<in>set cs. digit_value c < b \<Longrightarrow> digit_value c < b \<Longrightarrow>
     base_val b (cs @ [c]) = int b * base_val b cs + int (digit_value c)"
  by (simp add: base_val_def takeWhile_append2 takeWhile_eq_all_conv [THEN iffD2])

lemma num_string_digits: "2 \<le> b \<Longrightarrow> b \<le> 16 \<Longrightarrow> c \<in> set (num_string b n) \<Longrightarrow> digit_value c < b"
proof (induction b n rule: num_string.induct)
  case (1 b n)
  show ?case
  proof (cases "n < b")
    case True
    then show ?thesis using 1 by (simp add: num_string.simps [of b n] digit_value_hex)
  next
    case False
    then show ?thesis
      using 1 by (auto simp: num_string.simps [of b n] digit_value_hex less_le_trans [OF mod_less_divisor])
  qed
qed

lemma num_string_val: "2 \<le> b \<Longrightarrow> b \<le> 16 \<Longrightarrow> base_val b (num_string b n) = int n"
proof (induction b n rule: num_string.induct)
  case (1 b n)
  show ?case
  proof (cases "n < b")
    case True
    then show ?thesis using 1 by (simp add: num_string.simps [of b n] base_val_def digit_value_hex)
  next
    case False
    have m: "n mod b < b" "n mod b < 16" using 1(2,3) by (simp_all add: less_le_trans [OF mod_less_divisor])
    have "base_val b (num_string b (n div b)) = int (n div b)" using 1 False by simp
    then have "base_val b (num_string b n) = int b * int (n div b) + int (n mod b)"
      using False 1 m by (simp add: num_string.simps [of b n] base_val_append num_string_digits digit_value_hex)
    also have "\<dots> = int n" by (metis mult_div_mod_eq of_nat_add of_nat_mult)
    finally show ?thesis .
  qed
qed

end
