(* ===== verification/User_Db.thy ===== *)
theory User_Db
  imports Md5 Events C_Text "HOL-Library.Sublist"
begin

text \<open>
  The access decision (\<open>door_controller/user_db.c\<close>, \<open>user_db.h\<close>): the hex strings of PIN digest
  and card, the SQL text built in a 500 byte buffer, and the loop over the rows.

  SQLite and the clock are outside the repository: \<open>db_query\<close> maps the text of a statement to
  the rows that stepping it yields, \<open>None\<close> when it does not compile (\<open>sqlite3_step\<close> on the null
  statement then reports misuse and no row is seen); \<open>db_time\<close> is what \<open>time(0)\<close> returns during
  the call. A \<open>NULL\<close> column is \<open>None\<close>.
\<close>

subsection \<open>Modes, rows, database\<close>

abbreviation (input) MODE_CARD :: u8 where "MODE_CARD \<equiv> 0x01"
abbreviation (input) MODE_PIN :: u8 where "MODE_PIN \<equiv> 0x02"
abbreviation (input) MODE_CARD_OR_PIN :: u8 where "MODE_CARD_OR_PIN \<equiv> 0x10"
abbreviation (input) MODE_CARD_AND_PIN :: u8 where "MODE_CARD_AND_PIN \<equiv> 0x20"
abbreviation (input) MODE_CARD_AND_PIN_ALWAYS :: u8 where "MODE_CARD_AND_PIN_ALWAYS \<equiv> 0x30"
abbreviation (input) MODE_TWO_CARDS :: u8 where "MODE_TWO_CARDS \<equiv> 0x40"

definition MAX_CARD_LEN :: nat where "MAX_CARD_LEN = 16"
definition BUF_SIZE :: nat where "BUF_SIZE = 500"

record auth_row =
  col_userName :: "string option"
  col_userPin :: "string option"
  col_expire :: int
  col_allow_no_pin :: int
  col_door :: "string option"

record auth_db =
  db_query :: "string \<Rightarrow> auth_row list option"
  db_time :: int

definition step_rows :: "auth_db \<Rightarrow> string \<Rightarrow> auth_row list" where
  "step_rows db sql = (case db_query db sql of Some rows \<Rightarrow> rows | None \<Rightarrow> [])"

subsection \<open>Formatting\<close>

definition hex_byte :: "bool \<Rightarrow> u8 \<Rightarrow> string" where
  "hex_byte upper b = [hex_digit upper (unat b div 16), hex_digit upper (unat b mod 16)]"

definition hex_string :: "bool \<Rightarrow> u8 list \<Rightarrow> string" where
  "hex_string upper bs = concat (map (hex_byte upper) bs)"

text \<open>
  The loop \<open>for (i < cardLen) sprintf(cardStr + i*2, "%02X", card[i])\<close>. With \<open>cardLen = 0\<close> it
  writes nothing, not even the terminator, and the string read afterwards is uninitialised.
\<close>

definition card_str :: "u8 list \<Rightarrow> nat \<Rightarrow> string cres" where
  "card_str bytes cardLen =
     (if length bytes < cardLen then Inl Out_of_bounds
      else if cardLen = 0 then Inl Uninitialised
      else Inr (hex_string True (take cardLen bytes)))"

definition pin_md5_str :: "u8 list \<Rightarrow> nat \<Rightarrow> string cres" where
  "pin_md5_str pin pinLen =
     (if length pin < pinLen then Inl Out_of_bounds
      else cbind (MD5_Update (MD5_Init md5_zero_ctx) (take pinLen pin)) (\<lambda>ctx.
           cbind (MD5_Final ctx) (\<lambda>(digest, _). Inr (hex_string False digest))))"

text \<open>\<open>strstr(doorname, "%") - doorname\<close>.\<close>

fun percent_pos :: "string \<Rightarrow> nat option" where
  "percent_pos [] = None"
| "percent_pos (c # cs) = (if c = CHR ''%'' then Some 0 else map_option Suc (percent_pos cs))"

subsection \<open>Rows to a door mask\<close>

definition row_subdoor :: "string \<Rightarrow> auth_row \<Rightarrow> int cres" where
  "row_subdoor doorname row =
     (case percent_pos doorname of
        None \<Rightarrow> Inr 0
      | Some off \<Rightarrow>
          (case col_door row of
             None \<Rightarrow> Inl Null_pointer
           | Some door \<Rightarrow> if length door < off then Inl Out_of_bounds else Inr (atoi (drop off door))))"

definition strcmp_ne :: "string option \<Rightarrow> string \<Rightarrow> bool cres" where
  "strcmp_ne a b = (case a of None \<Rightarrow> Inl Null_pointer | Some s \<Rightarrow> Inr (s \<noteq> b))"

datatype auth_err = AUTH_ERR | AUTH_ERR_EXPIRE | AUTH_ERR_PIN

text \<open>One pass of the \<open>while\<close> body: the bits to add and the error type it leaves.\<close>

definition row_step :: "u8 \<Rightarrow> string \<Rightarrow> string \<Rightarrow> int \<Rightarrow> auth_row \<Rightarrow> (u32 \<times> auth_err) cres" where
  "row_step mode doorname pin_md5 curr_time row =
     (if curr_time > col_expire row then Inr (0, AUTH_ERR_EXPIRE)
      else cbind (if mode = MODE_CARD_AND_PIN_ALWAYS then strcmp_ne (col_userPin row) pin_md5 else Inr False)
        (\<lambda>bad. if bad then Inr (0, AUTH_ERR_PIN)
      else cbind (if mode = MODE_CARD_AND_PIN then strcmp_ne (col_userPin row) pin_md5 else Inr False)
        (\<lambda>bad. if bad \<and> col_allow_no_pin row \<noteq> 1 then Inr (0, AUTH_ERR_PIN)
      else cbind (row_subdoor doorname row) (\<lambda>subdoor.
           if subdoor < 0 \<or> 32 \<le> subdoor then Inl Bad_shift
           else Inr (push_bit (nat subdoor) 1, AUTH_ERR)))))"

fun rows_loop :: "u8 \<Rightarrow> string \<Rightarrow> string \<Rightarrow> int \<Rightarrow> auth_row list \<Rightarrow>
    u32 \<times> auth_err \<times> string option \<Rightarrow> (u32 \<times> auth_err \<times> string option) cres" where
  "rows_loop mode doorname pin_md5 curr_time [] (door_mask, errType, userName) =
     Inr (door_mask, errType, userName)"
| "rows_loop mode doorname pin_md5 curr_time (row # rows) (door_mask, errType, userName) =
     cbind (row_step mode doorname pin_md5 curr_time row) (\<lambda>(bits, err).
       rows_loop mode doorname pin_md5 curr_time rows (door_mask OR bits, err, col_userName row))"

subsection \<open>\<open>getAccessMask2\<close>\<close>

definition squote :: "string \<Rightarrow> string" where
  "squote s = CHR 0x27 # s @ [CHR 0x27]"

definition access_sql_head :: "string \<Rightarrow> string" where
  "access_sql_head doorname =
     ''SELECT DISTINCT users.name, users.pin, users.expire_date, user_door.allow_no_pin, user_door.time_expr, doors.name FROM users JOIN user_door JOIN doors ON ( '' @
     ''users.userid = user_door.userid AND user_door.doorid = doors.doorid AND doors.name LIKE '' @
     squote doorname @ '' AND ''"

definition access_sql_cond :: "u8 \<Rightarrow> string \<Rightarrow> string \<Rightarrow> string option" where
  "access_sql_cond mode pin_md5 cardStr =
     (if mode = MODE_PIN then Some (''users.pin == '' @ squote pin_md5)
      else if mode = MODE_CARD_AND_PIN \<or> mode = MODE_CARD_AND_PIN_ALWAYS \<or> mode = MODE_CARD
      then Some (''users.card == '' @ squote cardStr)
      else None)"

definition auth_err_event :: "auth_err \<Rightarrow> string option \<Rightarrow> string option \<Rightarrow> string \<Rightarrow> event" where
  "auth_err_event e door user cardStr =
     (case e of AUTH_ERR \<Rightarrow> EVENT_AUTH_ERR door user cardStr
      | AUTH_ERR_EXPIRE \<Rightarrow> EVENT_AUTH_ERR_EXPIRE door user cardStr
      | AUTH_ERR_PIN \<Rightarrow> EVENT_AUTH_ERR_PIN door user cardStr)"

text \<open>
  The result is the mask and the events sent. A statement that does not fit the buffer, a card
  that is too long and an unknown mode return 0 without an event.
\<close>

definition getAccessMask2 ::
  "u8 list \<Rightarrow> nat \<Rightarrow> u8 list \<Rightarrow> nat \<Rightarrow> u8 \<Rightarrow> string \<Rightarrow> auth_db \<Rightarrow> (u32 \<times> event list) cres" where
  "getAccessMask2 pin pinLen crd cardLen mode doorname db =
     cbind (if mode = MODE_PIN \<or> mode = MODE_CARD_AND_PIN_ALWAYS then pin_md5_str pin pinLen
            else Inr '''') (\<lambda>pin_md5.
     let uses_card = (mode = MODE_CARD \<or> mode = MODE_CARD_AND_PIN \<or> mode = MODE_CARD_AND_PIN_ALWAYS)
     in if uses_card \<and> cardLen > MAX_CARD_LEN then Inr (0, [])
        else cbind (if uses_card then card_str crd cardLen else Inr '''') (\<lambda>cardStr.
     let sql = access_sql_head doorname
     in if length sql \<ge> BUF_SIZE then Inr (0, [])
        else case access_sql_cond mode pin_md5 cardStr of
          None \<Rightarrow> Inr (0, [])
        | Some c \<Rightarrow>
            let sql = sql @ c
            in if length sql \<ge> BUF_SIZE then Inr (0, [])
               else let sql = sql @ '');''
               in if length sql \<ge> BUF_SIZE then Inr (0, [])
                  else cbind (rows_loop mode doorname pin_md5 (db_time db) (step_rows db sql)
                                (0, AUTH_ERR, None)) (\<lambda>(door_mask, errType, userName).
                    if door_mask \<noteq> 0
                    then Inr (door_mask, [EVENT_AUTH_OK (Some doorname) door_mask userName cardStr])
                    else Inr (door_mask, [auth_err_event errType (Some doorname) userName cardStr]))))"

subsection \<open>\<open>checkKeyAccess2\<close>\<close>

definition key_sql :: "string \<Rightarrow> string \<Rightarrow> string" where
  "key_sql card1Str card2Str =
     ''SELECT DISTINCT users.name, users.expire_date, doors.name FROM users JOIN user_door JOIN doors JOIN keys ON ( '' @
     ''users.userid = user_door.userid AND AND user_door = doors.doorid AND doors.doorid == keys.doorid '' @
     ''users.card = '' @ squote card1Str @ '' AND keys.cardid = '' @ squote card2Str @ '');''"

definition checkKeyAccess2 ::
  "u8 list \<Rightarrow> nat \<Rightarrow> u8 list \<Rightarrow> nat \<Rightarrow> auth_db \<Rightarrow> (u32 \<times> event list) cres" where
  "checkKeyAccess2 card1 card1Len card2 card2Len db =
     (if card1Len > MAX_CARD_LEN \<or> card2Len > MAX_CARD_LEN then Inr (0, [])
      else cbind (card_str card1 card1Len) (\<lambda>card1Str.
           cbind (card_str card2 card2Len) (\<lambda>card2Str.
           let sql = key_sql card1Str card2Str
           in if length sql \<ge> BUF_SIZE then Inr (0, [])
              else let (userName, door, door_mask) =
                     (case step_rows db sql of
                        [] \<Rightarrow> (None, None, 0)
                      | row # _ \<Rightarrow> (col_userName row, col_door row,
                                   if db_time db < col_expire row then 1 else 0))
              in if door_mask \<noteq> 0
                 then Inr (door_mask, [EVENT_AUTH_OK door door_mask userName card1Str])
                 else Inr (door_mask, [EVENT_AUTH_ERR (Some card2Str) userName card1Str]))))"

subsection \<open>Hexadecimal text\<close>

lemma pin_md5_str_eq:
  "pinLen \<le> length pin \<Longrightarrow> pinLen < 2 ^ 64 \<Longrightarrow>
     pin_md5_str pin pinLen = Inr (hex_string False (rfc_md5 (take pinLen pin)))"
  using md5_digest.one_shot [of md5_zero_ctx "take pinLen pin"]
  by (auto simp: pin_md5_str_def md5_zero_ctx_def cres_simps split: prod.splits)

lemma card_str_eq:
  "0 < n \<Longrightarrow> n \<le> length c \<Longrightarrow> card_str c n = Inr (hex_string True (take n c))"
  by (simp add: card_str_def)

definition hex_value :: "char \<Rightarrow> nat" where
  "hex_value c = (let n = of_char c in if n < 58 then n - 48 else if n < 97 then n - 55 else n - 87)"

fun parse_hex :: "string \<Rightarrow> u8 list" where
  "parse_hex (a # b # cs) = of_nat (16 * hex_value a + hex_value b) # parse_hex cs"
| "parse_hex _ = []"

lemma of_char_digit: "d < 16 \<Longrightarrow> (of_char (hex_digit upper d) :: nat) =
    (if d < 10 then 48 + d else (if upper then 55 else 87) + d)"
  by (simp add: hex_digit_def)

lemma hex_value_digit: "d < 16 \<Longrightarrow> hex_value (hex_digit upper d) = d"
proof -
  assume d: "d < 16"
  show ?thesis unfolding hex_value_def Let_def of_char_digit [OF d] using d by auto
qed

lemma hex_string_simps [simp]:
  "hex_string upper [] = []"
  "hex_string upper (b # bs) = hex_byte upper b @ hex_string upper bs"
  by (simp_all add: hex_string_def)

lemma length_hex_string [simp]: "length (hex_string upper bs) = 2 * length bs"
  by (induction bs) (simp_all add: hex_byte_def)

lemma parse_hex_string: "parse_hex (hex_string upper bs) = bs"
proof (induction bs)
  case (Cons b bs)
  have "unat b < 256" using unsigned_less [of b, where 'a = nat] by simp
  then have "hex_value (hex_digit upper (unat b div 16)) = unat b div 16"
    by (intro hex_value_digit) simp
  moreover have "hex_value (hex_digit upper (unat b mod 16)) = unat b mod 16"
    by (intro hex_value_digit) simp
  ultimately have "16 * hex_value (hex_digit upper (unat b div 16)) + hex_value (hex_digit upper (unat b mod 16)) = unat b"
    by (simp only: mult_div_mod_eq)
  then show ?case using Cons.IH by (simp only: hex_string_simps hex_byte_def append_Cons append_Nil parse_hex.simps) simp
qed simp

lemma hex_digit_not_quote: "d < 16 \<Longrightarrow> hex_digit upper d \<noteq> CHR 0x27"
proof
  assume "d < 16" and "hex_digit upper d = CHR 0x27"
  then have "(if d < 10 then 48 + d else (if upper then 55 else 87) + d) = (of_char (CHR 0x27) :: nat)"
    using of_char_digit [of d upper] by simp
  then show False by (simp split: if_splits)
qed

lemma hex_string_no_quote: "CHR 0x27 \<notin> set (hex_string upper bs)"
proof (induction bs)
  case (Cons b bs)
  have "unat b div 16 < 16" using unsigned_less [of b, where 'a = nat] by simp
  then show ?case
    using Cons.IH hex_digit_not_quote [of "unat b div 16" upper] hex_digit_not_quote [of "unat b mod 16" upper]
    by (auto simp: hex_byte_def)
qed simp

subsection \<open>What the rows grant\<close>

text \<open>When a row adds its door bit, and that it can be read without undefined behaviour.\<close>

definition row_grants :: "u8 \<Rightarrow> string \<Rightarrow> int \<Rightarrow> auth_row \<Rightarrow> bool" where
  "row_grants mode pin_md5 now row \<longleftrightarrow>
     now \<le> col_expire row \<and>
     (mode = MODE_CARD_AND_PIN_ALWAYS \<longrightarrow> col_userPin row = Some pin_md5) \<and>
     (mode = MODE_CARD_AND_PIN \<longrightarrow> col_userPin row = Some pin_md5 \<or> col_allow_no_pin row = 1)"

definition row_subdoor_is :: "string \<Rightarrow> nat \<Rightarrow> auth_row \<Rightarrow> bool" where
  "row_subdoor_is doorname k row \<longleftrightarrow> row_subdoor doorname row = Inr (int k)"

definition row_ok :: "u8 \<Rightarrow> string \<Rightarrow> auth_row \<Rightarrow> bool" where
  "row_ok mode doorname row \<longleftrightarrow>
     (mode = MODE_CARD_AND_PIN \<or> mode = MODE_CARD_AND_PIN_ALWAYS \<longrightarrow> col_userPin row \<noteq> None) \<and>
     (\<exists>k < 32. row_subdoor_is doorname k row)"

lemma row_step_ok:
  assumes "row_ok mode doorname row"
  obtains bits err where "row_step mode doorname pin_md5 now row = Inr (bits, err)"
    and "\<And>k. bit bits k \<longleftrightarrow> row_grants mode pin_md5 now row \<and> row_subdoor_is doorname k row"
proof -
  obtain n where n: "n < 32" "row_subdoor doorname row = Inr (int n)"
    using assms by (auto simp: row_ok_def row_subdoor_is_def)
  have b: "bit (push_bit n 1 :: u32) k \<longleftrightarrow> k = n" for k
    using n(1) by (auto simp: bit_simps)
  show ?thesis
  proof (cases "row_grants mode pin_md5 now row")
    case True
    then have "row_step mode doorname pin_md5 now row = Inr (push_bit n 1, AUTH_ERR)"
      using assms n by (auto simp: row_step_def row_grants_def row_ok_def strcmp_ne_def split: option.splits)
    then show ?thesis using that [of "push_bit n 1" AUTH_ERR] True n(2) by (auto simp: row_subdoor_is_def b simp del: push_bit_of_1)
  next
    case False
    then have "\<exists>err. row_step mode doorname pin_md5 now row = Inr (0, err)"
      using assms by (auto simp: row_step_def row_grants_def row_ok_def strcmp_ne_def split: option.splits)
    then show ?thesis using that False by auto
  qed
qed

lemma rows_loop_ok:
  assumes "\<forall>row\<in>set rows. row_ok mode doorname row"
  shows "\<exists>m err user. rows_loop mode doorname pin_md5 now rows (m0, e0, u0) = Inr (m, err, user) \<and>
    (\<forall>k. bit m k \<longleftrightarrow> bit m0 k \<or>
       (\<exists>row\<in>set rows. row_grants mode pin_md5 now row \<and> row_subdoor_is doorname k row))"
  using assms
proof (induction rows arbitrary: m0 e0 u0)
  case (Cons row rows)
  obtain bits err where s: "row_step mode doorname pin_md5 now row = Inr (bits, err)"
    and b: "\<And>k. bit bits k \<longleftrightarrow> row_grants mode pin_md5 now row \<and> row_subdoor_is doorname k row"
    using row_step_ok [of mode doorname row pin_md5 now] Cons.prems by (metis list.set_intros(1))
  show ?case
    using Cons.IH [of "m0 OR bits" err "col_userName row"] Cons.prems
    by (auto simp: s b bit_or_iff)
qed simp

text \<open>The statement sent for a mode, the digest the rows are compared with.\<close>

definition access_sql :: "u8 \<Rightarrow> string \<Rightarrow> string \<Rightarrow> string \<Rightarrow> string" where
  "access_sql mode doorname pin_md5 cardStr =
     access_sql_head doorname @ the (access_sql_cond mode pin_md5 cardStr) @ '');''"

definition mode_pin_md5 :: "u8 \<Rightarrow> u8 list \<Rightarrow> string" where
  "mode_pin_md5 mode pin =
     (if mode = MODE_PIN \<or> mode = MODE_CARD_AND_PIN_ALWAYS then hex_string False (rfc_md5 pin) else '''')"

definition mode_card :: "u8 \<Rightarrow> u8 list \<Rightarrow> string" where
  "mode_card mode crd = (if mode = MODE_PIN then '''' else hex_string True crd)"

definition db_modes :: "u8 set" where
  "db_modes = {MODE_CARD, MODE_PIN, MODE_CARD_AND_PIN, MODE_CARD_AND_PIN_ALWAYS}"

lemma length_access_sql_head: "length (access_sql_head doorname) = 251 + length doorname"
  by (simp add: access_sql_head_def squote_def)

lemma length_rfc_md5: "length (rfc_md5 msg) = 16"
  by (simp add: rfc_md5_def md5_OUT_def split: prod.split)

lemma cond_eq:
  assumes "mode \<in> db_modes"
  obtains s where "access_sql_cond mode p (mode_card mode crd) = Some s"
    and "length p \<le> 32 \<Longrightarrow> (mode \<noteq> MODE_PIN \<Longrightarrow> length crd \<le> 16) \<Longrightarrow> length s \<le> 48"
proof -
  show ?thesis
  proof (cases "mode = MODE_PIN")
    case True
    then show ?thesis by (intro that [of "''users.pin == '' @ squote p"]) (simp_all add: access_sql_cond_def squote_def)
  next
    case False
    then show ?thesis using assms
      by (intro that [of "''users.card == '' @ squote (hex_string True crd)"])
        (auto simp: access_sql_cond_def mode_card_def squote_def db_modes_def)
  qed
qed

lemma getAccessMask2_eq:
  assumes mode: "mode \<in> db_modes" and pin: "pinLen \<le> length pin" "pinLen < 2 ^ 64"
    and crd: "mode \<noteq> MODE_PIN \<Longrightarrow> 0 < cardLen \<and> cardLen \<le> 16 \<and> cardLen \<le> length crd" and name: "length doorname \<le> 198"
  defines "p \<equiv> mode_pin_md5 mode (take pinLen pin)" and "c \<equiv> mode_card mode (take cardLen crd)"
  shows "getAccessMask2 pin pinLen crd cardLen mode doorname db =
     cbind (rows_loop mode doorname p (db_time db) (step_rows db (access_sql mode doorname p c)) (0, AUTH_ERR, None))
       (\<lambda>(m, e, user). Inr (m, [if m \<noteq> 0 then EVENT_AUTH_OK (Some doorname) m user c
                                       else auth_err_event e (Some doorname) user c]))"
proof -
  have "length p \<le> 32"
    by (simp add: p_def mode_pin_md5_def length_rfc_md5)
  then obtain s where s: "access_sql_cond mode p c = Some s" and ls: "length s \<le> 48"
    using cond_eq [OF mode, of p "take cardLen crd"] crd by (auto simp: c_def)
  have short: "length (access_sql_head doorname @ s) < 498" "length (access_sql_head doorname) < 500"
    using ls name by (simp_all add: length_access_sql_head)
  have digest: "(if mode = MODE_PIN \<or> mode = MODE_CARD_AND_PIN_ALWAYS then pin_md5_str pin pinLen else Inr '''') = Inr p"
    using pin by (simp add: p_def mode_pin_md5_def pin_md5_str_eq)
  define uses where "uses \<longleftrightarrow> mode = MODE_CARD \<or> mode = MODE_CARD_AND_PIN \<or> mode = MODE_CARD_AND_PIN_ALWAYS"
  have card: "(if uses then card_str crd cardLen else Inr '''') = Inr c"
    using crd mode by (auto simp: c_def uses_def mode_card_def card_str_eq db_modes_def)
  have fits: "\<not> (uses \<and> cardLen > MAX_CARD_LEN)" using crd by (auto simp: MAX_CARD_LEN_def uses_def)
  then show ?thesis
    unfolding getAccessMask2_def uses_def [symmetric] digest if_not_P [OF fits] card Let_def cbind_simps s
    using short s
    by (auto simp: BUF_SIZE_def access_sql_def cbind_def split: sum.splits)
qed

lemma getAccessMask2_returns:
  assumes "pinLen \<le> length pin" "pinLen < 2 ^ 64"
    and "mode \<noteq> MODE_PIN \<Longrightarrow> 0 < cardLen \<and> cardLen \<le> length crd"
    and "\<And>sql. \<forall>row\<in>set (step_rows db sql). row_ok mode doorname row"
  shows "returns (getAccessMask2 pin pinLen crd cardLen mode doorname db) (\<lambda>(m, evs). \<forall>ev\<in>set evs. event_type ev < 4)"
proof -
  have ev: "event_type (auth_err_event e d u c) < 4" for e d u c
    by (simp add: auth_err_event_def split: auth_err.split)
  have loop: "returns (rows_loop mode doorname p now (step_rows db sql) (0, AUTH_ERR, None)) (\<lambda>_. True)" for p now sql
    using rows_loop_ok [OF assms(4), of p now sql 0 AUTH_ERR None] by (auto simp: returns_iff)
  have md5: "\<exists>p. (if mode = MODE_PIN \<or> mode = MODE_CARD_AND_PIN_ALWAYS then pin_md5_str pin pinLen else Inr '''') = Inr p"
    using pin_md5_str_eq [OF assms(1,2)] by simp
  then obtain p where p: "(if mode = MODE_PIN \<or> mode = MODE_CARD_AND_PIN_ALWAYS then pin_md5_str pin pinLen else Inr '''') = Inr p" by blast
  have "\<exists>c. (if mode = MODE_CARD \<or> mode = MODE_CARD_AND_PIN \<or> mode = MODE_CARD_AND_PIN_ALWAYS then card_str crd cardLen else Inr '''') = Inr c"
    using card_str_eq [of cardLen crd] assms(3) by auto
  then obtain c where c: "(if mode = MODE_CARD \<or> mode = MODE_CARD_AND_PIN \<or> mode = MODE_CARD_AND_PIN_ALWAYS then card_str crd cardLen else Inr '''') = Inr c" by blast
  show ?thesis
    unfolding getAccessMask2_def p c cbind_simps Let_def
    by (simp add: case_prod_beta ev loop split: option.split)
qed

lemma checkKeyAccess2_returns:
  assumes "0 < card1Len" "card1Len \<le> length card1" "0 < card2Len" "card2Len \<le> length card2"
  shows "returns (checkKeyAccess2 card1 card1Len card2 card2Len db) (\<lambda>(m, evs). \<forall>ev\<in>set evs. event_type ev < 4)"
  using assms by (simp add: checkKeyAccess2_def card_str_eq Let_def split: list.split)

text \<open>
  Property C15. For every mode the controller passes, every PIN, card and door name that fits
  the buffer, and rows that can be read, \<open>getAccessMask2\<close> sends exactly one event and returns
  the mask whose bit \<open>k\<close> is set exactly when the statement it builds yields a row for subdoor
  \<open>k\<close> that has not expired and satisfies the PIN rule of the mode: the stored digest equals
  the MD5 digest of the PIN where a PIN is required, or the row allows access without one.
\<close>

theorem getAccessMask2_grants:
  assumes "mode \<in> db_modes" and "pinLen \<le> length pin" "pinLen < 2 ^ 64"
    and "mode \<noteq> MODE_PIN \<Longrightarrow> 0 < cardLen \<and> cardLen \<le> 16 \<and> cardLen \<le> length crd"
    and "length doorname \<le> 198"
    and "p = mode_pin_md5 mode (take pinLen pin)" and "c = mode_card mode (take cardLen crd)"
    and "rows = step_rows db (access_sql mode doorname p c)"
    and "\<forall>row\<in>set rows. row_ok mode doorname row"
  shows "\<exists>m ev. getAccessMask2 pin pinLen crd cardLen mode doorname db = Inr (m, [ev]) \<and>
    (\<forall>k. bit m k \<longleftrightarrow> (\<exists>row\<in>set rows. row_grants mode p (db_time db) row \<and> row_subdoor_is doorname k row)) \<and>
    (event_type ev = 0 \<longleftrightarrow> m \<noteq> 0)"
proof -
  obtain m err user where loop: "rows_loop mode doorname p (db_time db) rows (0, AUTH_ERR, None) = Inr (m, err, user)"
    and bits: "\<forall>k. bit m k \<longleftrightarrow>
      (\<exists>row\<in>set rows. row_grants mode p (db_time db) row \<and> row_subdoor_is doorname k row)"
    using rows_loop_ok [OF assms(9), of p "db_time db" 0 AUTH_ERR None] by auto
  have "event_type (auth_err_event err (Some doorname) user c) \<noteq> 0"
    by (simp add: auth_err_event_def split: auth_err.split)
  then show ?thesis
    using loop bits by (auto simp: getAccessMask2_eq [OF assms(1-5)] simp flip: assms(6,7,8))
qed

definition sample_row :: auth_row where
  "sample_row = \<lparr>col_userName = Some ''ann'', col_userPin = Some ''x'', col_expire = 100,
     col_allow_no_pin = 1, col_door = Some ''lift3''\<rparr>"

definition sample_db :: "int \<Rightarrow> auth_db" where
  "sample_db now = \<lparr>db_query = (\<lambda>sql. Some [sample_row]), db_time = now\<rparr>"

lemma sample_rows: "step_rows (sample_db now) sql = [sample_row]"
  by (simp add: step_rows_def sample_db_def)

lemma sample_row_ok: "row_ok MODE_CARD_AND_PIN ''lift%'' sample_row" "row_subdoor_is ''lift%'' 3 sample_row"
proof -
  show s: "row_subdoor_is ''lift%'' 3 sample_row"
    unfolding row_subdoor_is_def by code_simp
  then show "row_ok MODE_CARD_AND_PIN ''lift%'' sample_row"
    unfolding row_ok_def by (auto simp: sample_row_def intro: exI [of _ 3])
qed

theorem getAccessMask2_grants_witness:
  "\<exists>m ev. getAccessMask2 [] 0 [0xa9] 1 MODE_CARD_AND_PIN ''lift%'' (sample_db 7) = Inr (m, [ev]) \<and> bit m 3"
proof -
  let ?p = "mode_pin_md5 MODE_CARD_AND_PIN (take 0 [])" and ?c = "mode_card MODE_CARD_AND_PIN (take 1 [0xa9])"
  obtain m ev where "getAccessMask2 [] 0 [0xa9] 1 MODE_CARD_AND_PIN ''lift%'' (sample_db 7) = Inr (m, [ev])"
    and "\<forall>k. bit m k \<longleftrightarrow> (\<exists>row\<in>set [sample_row]. row_grants MODE_CARD_AND_PIN ?p (db_time (sample_db 7)) row \<and>
           row_subdoor_is ''lift%'' k row)"
    using getAccessMask2_grants [of MODE_CARD_AND_PIN 0 "[]" 1 "[0xa9]" "''lift%''" ?p ?c "[sample_row]" "sample_db 7"]
    by (auto simp: db_modes_def sample_rows sample_row_ok)
  moreover have "row_grants MODE_CARD_AND_PIN ?p (db_time (sample_db 7)) sample_row"
    by (simp add: row_grants_def sample_row_def sample_db_def)
  ultimately show ?thesis using sample_row_ok(2) by auto
qed

text \<open>
  Formatting a card with "%02X" (or a digest with "%02x") loses nothing: parsing
  the text gives the bytes back, so two different cards never look alike to the database.
\<close>

lemma hex_roundtrip: "parse_hex (hex_string upper bs) = bs"
  by (rule parse_hex_string)




definition grammar_db :: auth_db where
  "grammar_db = \<lparr>db_query = (\<lambda>sql. if sublist ''AND AND'' sql then None else Some [sample_row]), db_time = 7\<rparr>"


end
