(* ===== verification/Gpio.thy ===== *)
theory Gpio
  imports AC_Prelude
begin

text \<open>
  The GPIO layer of the Orange Pi Zero (\<open>gpios/gpio-orangepizero.c\<close>, \<open>gpios/gpio.h\<close>): the
  line tables, driving the outputs of a mask, and decoding the inputs of the doors.

  libgpiod is outside the repository. An output call is a pair of line and level; the result
  of \<open>gpiod_ctxless_get_value_multiple\<close> is an argument: \<open>Some vs\<close> for the values it stored,
  \<open>None\<close> for a call that failed and stored nothing.
\<close>

subsection \<open>Line tables and flags\<close>

abbreviation (input) DI_MANUAL_OPEN :: u8 where "DI_MANUAL_OPEN \<equiv> 0x01"
abbreviation (input) DI_IS_EMERGENCY_OPEN :: u8 where "DI_IS_EMERGENCY_OPEN \<equiv> 0x02"
abbreviation (input) DI_IS_DOOR_CLOSE :: u8 where "DI_IS_DOOR_CLOSE \<equiv> 0x04"
abbreviation (input) DI_IS_DOOR_LOCK :: u8 where "DI_IS_DOOR_LOCK \<equiv> 0x08"
abbreviation (input) DI_STATE_IS_DIFF :: u8 where "DI_STATE_IS_DIFF \<equiv> 0x80"

datatype door_operation = DO_UNLOCK | DO_LOCK

definition outputs :: "nat list" where
  "outputs = [13, 7, 6 * 32 + 6, 6 * 32 + 7]"

definition inputs :: "nat list" where
  "inputs = [14, 15, 16, 18, 6, 11, 12, 19]"

abbreviation (input) INPUTS_DOORS :: nat where "INPUTS_DOORS \<equiv> 2"
abbreviation (input) INPUTS_TYPES :: nat where "INPUTS_TYPES \<equiv> 4"

subsection \<open>Outputs\<close>

definition set_door_state :: "door_operation \<Rightarrow> u32 \<Rightarrow> (nat \<times> nat) list" where
  "set_door_state doorOperation m =
     (let val = (if doorOperation = DO_UNLOCK then 0 else 1)
      in map (\<lambda>i. (outputs ! i, val)) (filter (\<lambda>i. m AND push_bit i 1 \<noteq> 0) [0..<4]))"

subsection \<open>Inputs\<close>

text \<open>
  The array \<open>values\<close> is a local array of the caller whose elements are \<open>None\<close> until they are
  written. \<open>inputsValues\<close> is preset with bytes 0x13. The ints are shifted as 32 bit words, and
  the byte keeps the low eight bits.
\<close>

type_synonym gpio_result = "u32 list option"

definition inputsValues :: "gpio_result \<Rightarrow> u32 list" where
  "inputsValues rd =
     (case rd of Some vs \<Rightarrow> vs | None \<Rightarrow> replicate (INPUTS_DOORS * INPUTS_TYPES) 0x13131313)"

definition input_byte :: "u32 list \<Rightarrow> nat \<Rightarrow> u8" where
  "input_byte vals i =
     fold (\<lambda>j v. ucast (ucast v OR push_bit j (vals ! (i * 4 + j)))) [0..<INPUTS_TYPES] 0"

fun input_loop :: "u32 list \<Rightarrow> nat list \<Rightarrow> u32 \<Rightarrow> u8 option list \<Rightarrow> u8 option list cres" where
  "input_loop vals [] m values = Inr values"
| "input_loop vals (i # is) m values =
     (if m = 0 then Inr values
      else cbind (if m AND 1 \<noteq> 0 then store values i (Some (input_byte vals i)) else Inr values)
             (input_loop vals is (drop_bit 1 m)))"

definition get_input_state :: "gpio_result \<Rightarrow> u8 option list \<Rightarrow> u32 \<Rightarrow> u8 option list cres" where
  "get_input_state rd values m = input_loop (inputsValues rd) [0..<INPUTS_DOORS] m values"

subsection \<open>Lemmas\<close>

lemma set_door_state_0 [simp]: "set_door_state d 0 = []"
  by (simp add: set_door_state_def)

lemma mask_bit: "m AND push_bit i 1 \<noteq> 0 \<longleftrightarrow> bit m i" for m :: u32
proof -
  have "bit (m AND push_bit i 1) n \<longleftrightarrow> n = i \<and> bit m i" for n
    by (auto simp: bit_simps dest: bit_imp_le_length)
  then show ?thesis by (metis bit_0_eq bit_eqI bot_apply bot_bool_def)
qed

lemma distinct_outputs: "i < 4 \<Longrightarrow> j < 4 \<Longrightarrow> outputs ! i = outputs ! j \<longleftrightarrow> i = j"
  by (auto simp: outputs_def less_Suc_eq numeral_eq_Suc)

lemma set_door_state_set:
  "(l, v) \<in> set (set_door_state d m) \<longleftrightarrow>
     (\<exists>i < 4. bit m i \<and> l = outputs ! i \<and> v = (if d = DO_UNLOCK then 0 else 1))"
  unfolding set_door_state_def Let_def by (simp only: mask_bit) auto

lemma bit_or_step:
  "bit (ucast (ucast v OR push_bit k w) :: u8) n \<longleftrightarrow> n < 8 \<and> (bit v n \<or> k \<le> n \<and> bit w (n - k))"
  for v :: u8 and w :: u32
  by (auto simp: bit_simps dest: bit_imp_le_length)

lemma input_byte_bits:
  assumes "i < INPUTS_DOORS" and "\<forall>k < 8. vals ! k = 0 \<or> vals ! k = 1"
  shows "bit (input_byte vals i) j \<longleftrightarrow> j < 4 \<and> vals ! (i * 4 + j) = 1"
proof -
  let ?v = "\<lambda>k. vals ! (i * 4 + k)"
  have b: "bit (?v k) n \<longleftrightarrow> n = 0 \<and> ?v k = 1" if "k < 4" for k n
  proof -
    have "i * 4 + k < 8" using assms(1) that by simp
    then show ?thesis using assms(2) by (metis bit_0_eq bit_1_iff bot_apply bot_bool_def zero_neq_one)
  qed
  have u: "[0..<INPUTS_TYPES] = [0, 1, 2, 3]" by (simp add: upt_rec)
  have bits: "bit (input_byte vals i) j \<longleftrightarrow> j < 8 \<and>
      (bit (?v 0) j \<or> (1 \<le> j \<and> bit (?v 1) (j - 1)) \<or> (2 \<le> j \<and> bit (?v 2) (j - 2)) \<or> (3 \<le> j \<and> bit (?v 3) (j - 3)))"
    unfolding input_byte_def u
    by (simp only: fold_simps o_apply id_apply bit_or_step bit_0_eq bot_apply bot_bool_def le0 diff_zero) auto
  have lt: "(0::nat) < 4" "(1::nat) < 4" "(2::nat) < 4" "(3::nat) < 4" by simp_all
  have "bit (input_byte vals i) j \<longleftrightarrow> j = 0 \<and> ?v 0 = 1 \<or> j = 1 \<and> ?v 1 = 1 \<or> j = 2 \<and> ?v 2 = 1 \<or> j = 3 \<and> ?v 3 = 1"
    unfolding bits b [OF lt(1)] b [OF lt(2)] b [OF lt(3)] b [OF lt(4)] by linarith
  moreover have "j < 4 \<longleftrightarrow> j = 0 \<or> j = 1 \<or> j = 2 \<or> j = 3" by linarith
  ultimately show ?thesis by metis
qed

lemma get_input_state_eq:
  "get_input_state rd [v0] 1 = Inr [Some (input_byte (inputsValues rd) 0)]"
  "get_input_state rd [v0, v1] 3 =
     Inr [Some (input_byte (inputsValues rd) 0), Some (input_byte (inputsValues rd) 1)]"
  by (simp_all add: get_input_state_def upt_rec store_def)

lemma input_byte_failed: "i < INPUTS_DOORS \<Longrightarrow> input_byte (inputsValues None) i = 0xff"
proof -
  assume "i < INPUTS_DOORS"
  then have "i = 0 \<or> i = 1" by auto
  moreover have "input_byte (inputsValues None) 0 = 0xff" "input_byte (inputsValues None) 1 = 0xff"
    by code_simp+
  ultimately show ?thesis by auto
qed

text \<open>
  \<open>set_door_state\<close> drives exactly the output lines whose bit is set in the mask,
  each once, with level 0 for unlocking and 1 for locking; bits above the four outputs drive
  nothing.
\<close>

lemma set_door_state_drives:
  "distinct (map fst (set_door_state d m)) \<and>
   set (set_door_state d m) =
     {(outputs ! i, if d = DO_UNLOCK then 0 else 1) | i. i < 4 \<and> bit m i}"
proof
  have "map fst (set_door_state d m) = map (\<lambda>i. outputs ! i) (filter (bit m) [0..<4])"
    unfolding set_door_state_def Let_def by (simp only: mask_bit map_map) (simp add: o_def)
  moreover have "inj_on (\<lambda>i. outputs ! i) (set (filter (bit m) [0..<4]))"
    by (auto simp: inj_on_def distinct_outputs)
  ultimately show "distinct (map fst (set_door_state d m))"
    by (simp only: distinct_map) simp
  show "set (set_door_state d m) = {(outputs ! i, if d = DO_UNLOCK then 0 else 1) | i. i < 4 \<and> bit m i}"
    by (rule set_eqI) (auto simp: set_door_state_set)
qed

text \<open>
  A successful reading of the eight lines decodes without loss: for both doors, bit
  \<open>j\<close> of the input byte is set exactly when line \<open>j\<close> of that door is active, and the upper
  four bits are clear.
\<close>

lemma get_input_state_decodes:
  assumes "length vals = 8" and "\<forall>k < 8. vals ! k = 0 \<or> vals ! k = 1"
  shows "\<exists>a b. get_input_state (Some vals) [v0, v1] 3 = Inr [Some a, Some b] \<and>
    (\<forall>j. bit a j \<longleftrightarrow> j < 4 \<and> vals ! j = 1) \<and> (\<forall>j. bit b j \<longleftrightarrow> j < 4 \<and> vals ! (4 + j) = 1)"
  using input_byte_bits [OF _ assms(2), of 0] input_byte_bits [OF _ assms(2), of 1]
  by (simp add: get_input_state_eq inputsValues_def)

text \<open>
  When the library call fails, the preset buffer is decoded as if it were a
  reading: both doors see the byte 0xff, in which the manual open button is pressed, the
  emergency input is active and the difference flag is set.
\<close>

lemma get_input_state_failure:
  "get_input_state None [v0, v1] 3 = Inr [Some 0xff, Some 0xff]"
  by (simp add: get_input_state_eq input_byte_failed)

end
