(* ===== verification/Door_State.thy ===== *)
theory Door_State
  imports User_Db Gpio
begin

text \<open>
  The data of the door controller (\<open>door_controller/door_controller.h\<close>): doors, the readers of a
  door, and the state of the whole process.

  The array of doors is a list and a \<open>Door*\<close> is an index into it. A \<open>Reader*\<close> is the number of
  the reader on a heap \<open>readers\<close> that holds the private data of the linked reader driver, of type
  \<open>'r\<close>. The history \<open>trace\<close> records, newest first, what the controller asks of its environment:
  output lines, events, reader signals. Lengths that are never negative are naturals, the C
  timers are integers.
\<close>

subsection \<open>Reader interface of \<open>readers/reader.h\<close>\<close>

abbreviation (input) SIGNAL_OK :: u8 where "SIGNAL_OK \<equiv> 0x10"
abbreviation (input) SIGNAL_DOOR_OPEN :: u8 where "SIGNAL_DOOR_OPEN \<equiv> 0x11"
abbreviation (input) SIGNAL_DOOR_LOCK :: u8 where "SIGNAL_DOOR_LOCK \<equiv> 0x12"
abbreviation (input) SIGNAL_ERR :: u8 where "SIGNAL_ERR \<equiv> 0x20"
abbreviation (input) SIGNAL_ERR_AUTH :: u8 where "SIGNAL_ERR_AUTH \<equiv> 0x21"
abbreviation (input) SIGNAL_ERR_USAGE :: u8 where "SIGNAL_ERR_USAGE \<equiv> 0x22"
abbreviation (input) SIGNAL_ERR_COMM :: u8 where "SIGNAL_ERR_COMM \<equiv> 0x23"
abbreviation (input) SIGNAL_PIN :: u8 where "SIGNAL_PIN \<equiv> 0x41"
abbreviation (input) SIGNAL_PIN_QUIET :: u8 where "SIGNAL_PIN_QUIET \<equiv> 0x42"
abbreviation (input) SIGNAL_BLOCKED :: u8 where "SIGNAL_BLOCKED \<equiv> 0x81"
abbreviation (input) SIGNAL_UNBLOCKED :: u8 where "SIGNAL_UNBLOCKED \<equiv> 0x82"

datatype data_type = DATA_IS_PIN | DATA_IS_CARD
datatype data_mode = DATA_OK | DATA_OUT_OF_BUF | DATA_TIMEOUT

subsection \<open>Doors\<close>

definition MAX_PIN_LEN :: nat where "MAX_PIN_LEN = 16"

record door_reader =
  dr_reader :: "nat option"
  accessMode :: u8
  tf_timer :: int
  cardLen :: nat
  card2Len :: nat
  pinLen :: nat
  dr_card :: "u8 list"
  dr_card2 :: "u8 list"
  dr_pin :: "u8 list"

record door =
  doorName :: string
  readerA :: door_reader
  readerB :: door_reader
  lastInput :: u8
  alarm_timers :: int
  maskOffset :: u8
  maskFull :: u32
  door_lock_timer :: int
  admDisableMask :: u32
  airLockMask :: u32
  airLockPartnerString :: "string option"
  airLockPartnerLocal :: "nat option"

datatype action = Gpio nat nat | Event event | Signal nat u8

record 'r sys =
  doors :: "door list"
  readers :: "nat \<Rightarrow> 'r"
  trace :: "action list"

datatype side = SideA | SideB

instantiation side :: enum
begin

definition enum_side :: "side list" where "enum_side = [SideA, SideB]"
definition enum_all_side :: "(side \<Rightarrow> bool) \<Rightarrow> bool" where "enum_all_side P \<longleftrightarrow> P SideA \<and> P SideB"
definition enum_ex_side :: "(side \<Rightarrow> bool) \<Rightarrow> bool" where "enum_ex_side P \<longleftrightarrow> P SideA \<or> P SideB"

instance
proof
  show U: "(UNIV :: side set) = set enum_class.enum" by (auto simp: enum_side_def intro: side.exhaust)
  show "distinct (enum_class.enum :: side list)" by (simp add: enum_side_def)
  show "enum_class.enum_all P \<longleftrightarrow> Ball UNIV P" "enum_class.enum_ex P \<longleftrightarrow> Bex UNIV P" for P :: "side \<Rightarrow> bool"
    unfolding U by (simp_all add: enum_side_def enum_all_side_def enum_ex_side_def)
qed

end

lemma all_sides: "(\<forall>sd. P sd) \<longleftrightarrow> P SideA \<and> P SideB"
  using side.exhaust by metis

fun get_dr :: "side \<Rightarrow> door \<Rightarrow> door_reader" where
  "get_dr SideA d = readerA d"
| "get_dr SideB d = readerB d"

fun set_dr :: "side \<Rightarrow> door_reader \<Rightarrow> door \<Rightarrow> door" where
  "set_dr SideA r d = d\<lparr>readerA := r\<rparr>"
| "set_dr SideB r d = d\<lparr>readerB := r\<rparr>"

subsection \<open>State access\<close>

definition door_at :: "'r sys \<Rightarrow> nat \<Rightarrow> door" where
  "door_at s i = doors s ! i"

definition upd_door :: "nat \<Rightarrow> (door \<Rightarrow> door) \<Rightarrow> 'r sys \<Rightarrow> 'r sys" where
  "upd_door i f s = s\<lparr>doors := (doors s)[i := f (doors s ! i)]\<rparr>"

definition upd_dr :: "nat \<Rightarrow> side \<Rightarrow> (door_reader \<Rightarrow> door_reader) \<Rightarrow> 'r sys \<Rightarrow> 'r sys" where
  "upd_dr i sd f = upd_door i (\<lambda>d. set_dr sd (f (get_dr sd d)) d)"

definition upd_reader :: "nat \<Rightarrow> 'r \<Rightarrow> 'r sys \<Rightarrow> 'r sys" where
  "upd_reader h r s = s\<lparr>readers := (readers s)(h := r)\<rparr>"

definition emit :: "action list \<Rightarrow> 'r sys \<Rightarrow> 'r sys" where
  "emit outs s = s\<lparr>trace := rev outs @ trace s\<rparr>"

subsection \<open>Access and frame lemmas\<close>

lemma get_set_dr [simp]:
  "get_dr sd (set_dr sd' r d) = (if sd = sd' then r else get_dr sd d)"
  by (cases sd; cases sd') simp_all

lemma set_dr_fields [simp, frame_simps]:
  "doorName (set_dr sd r d) = doorName d" "lastInput (set_dr sd r d) = lastInput d"
  "alarm_timers (set_dr sd r d) = alarm_timers d" "maskOffset (set_dr sd r d) = maskOffset d"
  "maskFull (set_dr sd r d) = maskFull d" "door_lock_timer (set_dr sd r d) = door_lock_timer d"
  "admDisableMask (set_dr sd r d) = admDisableMask d" "airLockMask (set_dr sd r d) = airLockMask d"
  "airLockPartnerLocal (set_dr sd r d) = airLockPartnerLocal d"
  by (cases sd; simp)+

lemma get_dr_upd [simp, frame_simps]:
  "get_dr sd (d\<lparr>lastInput := a\<rparr>) = get_dr sd d" "get_dr sd (d\<lparr>alarm_timers := b\<rparr>) = get_dr sd d"
  "get_dr sd (d\<lparr>door_lock_timer := c\<rparr>) = get_dr sd d" "get_dr sd (d\<lparr>airLockMask := m\<rparr>) = get_dr sd d"
  "get_dr sd (d\<lparr>admDisableMask := m\<rparr>) = get_dr sd d"
  by (cases sd; simp)+

lemma sys_frames [simp, frame_simps]:
  "doors (upd_reader h r s) = doors s" "trace (upd_reader h r s) = trace s"
  "doors (emit outs s) = doors s" "readers (emit outs s) = readers s"
  "readers (upd_door i f s) = readers s" "trace (upd_door i f s) = trace s"
  "length (doors (upd_door i f s)) = length (doors s)"
  "readers (upd_dr i sd g s) = readers s" "trace (upd_dr i sd g s) = trace s"
  "length (doors (upd_dr i sd g s)) = length (doors s)"
  "door_at (upd_reader h r s) i = door_at s i" "door_at (emit outs s) i = door_at s i"
  by (simp_all add: upd_reader_def emit_def upd_door_def upd_dr_def door_at_def)

lemma trace_emit [simp]: "trace (emit outs s) = rev outs @ trace s"
  by (simp add: emit_def)

lemma door_at_upd [simp]:
  "i < length (doors s) \<Longrightarrow> door_at (upd_door j f s) i = (if i = j then f (door_at s i) else door_at s i)"
  by (auto simp: door_at_def upd_door_def nth_list_update)

lemma door_at_upd_dr [simp]:
  "i < length (doors s) \<Longrightarrow> door_at (upd_dr j sd f s) i =
     (if i = j then set_dr sd (f (get_dr sd (door_at s i))) (door_at s i) else door_at s i)"
  by (simp add: upd_dr_def)

lemma readers_upd_reader [simp]: "readers (upd_reader h r s) k = (if k = h then r else readers s k)"
  by (simp add: upd_reader_def)

end
