(* ===== verification/Door_Controller.thy ===== *)
theory Door_Controller
  imports Door_State
begin

text \<open>
  The door controller (\<open>door_controller/door_controller.c\<close>), one definition per function. The
  functions of the linked reader driver are arguments, under the names of \<open>readers/reader.h\<close>:
  \<open>rsig\<close> for \<open>reader_signal\<close>, \<open>rclear\<close> for \<open>clear_reader_data\<close>, \<open>rget\<close> for
  \<open>get_reader_data\<close>; \<open>rd\<close> is the result of the GPIO read of a cycle and \<open>db\<close> the database.
  Log messages and the sleep at the end of the main loop are left out.
\<close>

definition DOOR_OPEN_TIME :: int where "DOOR_OPEN_TIME = 13"
definition TWO_FACTOR_TIME :: int where "TWO_FACTOR_TIME = 23"
definition ALARM_RESEND_TIMER :: int where "ALARM_RESEND_TIMER = 60"
definition ALARM_MASK :: u8 where "ALARM_MASK = push_bit 3 1"

type_synonym 'r signal_op = "u8 \<Rightarrow> 'r \<Rightarrow> 'r cres"

text \<open>\<open>process_user_info\<close> as the drivers see it: data, type, mode, reader, \<open>readerUserData\<close>.\<close>

type_synonym 'r callback = "u8 list \<Rightarrow> data_type \<Rightarrow> data_mode \<Rightarrow> nat \<Rightarrow> nat \<Rightarrow> 'r sys \<Rightarrow> 'r sys cres"

type_synonym 'r get_op = "'r callback \<Rightarrow> nat \<Rightarrow> int \<Rightarrow> 'r sys \<Rightarrow> 'r sys cres"

subsection \<open>Doors by name, signals, authorisation data\<close>

fun getDoorByName :: "door list \<Rightarrow> string \<Rightarrow> nat option" where
  "getDoorByName [] name = None"
| "getDoorByName (d # ds) name =
     (if doorName d = name then Some 0 else map_option Suc (getDoorByName ds name))"

definition call_signal :: "'r signal_op \<Rightarrow> u8 \<Rightarrow> nat \<Rightarrow> 'r sys \<Rightarrow> 'r sys cres" where
  "call_signal rsig sg h s =
     cbind (rsig sg (readers s h)) (\<lambda>r. Inr (emit [Signal h sg] (upd_reader h r s)))"

definition signal_if :: "'r signal_op \<Rightarrow> u8 \<Rightarrow> nat option \<Rightarrow> 'r sys \<Rightarrow> 'r sys cres" where
  "signal_if rsig sg reader s = (case reader of None \<Rightarrow> Inr s | Some h \<Rightarrow> call_signal rsig sg h s)"

definition door_signal :: "'r signal_op \<Rightarrow> nat \<Rightarrow> u8 \<Rightarrow> 'r sys \<Rightarrow> 'r sys cres" where
  "door_signal rsig i sg s =
     cbind (signal_if rsig sg (dr_reader (readerA (door_at s i))) s) (\<lambda>s.
     signal_if rsig sg (dr_reader (readerB (door_at s i))) s)"

definition signalDoorStatus :: "'r signal_op \<Rightarrow> nat \<Rightarrow> 'r sys \<Rightarrow> 'r sys cres" where
  "signalDoorStatus rsig i s =
     (if admDisableMask (door_at s i) \<noteq> 0 \<or> airLockMask (door_at s i) \<noteq> 0
      then door_signal rsig i SIGNAL_BLOCKED s
      else door_signal rsig i SIGNAL_UNBLOCKED s)"

definition resetDoorAuth :: "door_reader \<Rightarrow> door_reader" where
  "resetDoorAuth dr = dr\<lparr>cardLen := 0, pinLen := 0, tf_timer := 0\<rparr>"

subsection \<open>Airlock, unlocking, locking\<close>

definition airLockOnPartner :: "'r signal_op \<Rightarrow> nat \<Rightarrow> u32 \<Rightarrow> 'r sys \<Rightarrow> 'r sys cres" where
  "airLockOnPartner rsig i m s =
     (case airLockPartnerLocal (door_at s i) of
        None \<Rightarrow> Inr s
      | Some p \<Rightarrow>
          let d = door_at s i;
              s = (if m = 0
                   then if door_lock_timer d \<le> 0 \<and> lastInput d AND DI_IS_DOOR_CLOSE = DI_IS_DOOR_CLOSE
                        then upd_door p (\<lambda>q. q\<lparr>airLockMask := 0\<rparr>) s
                        else s
                   else upd_door p (\<lambda>q. q\<lparr>airLockMask := maskFull q AND m\<rparr>) s)
          in signalDoorStatus rsig i s)"

definition shifted_mask :: "u32 \<Rightarrow> u8 \<Rightarrow> u32 cres" where
  "shifted_mask m off = (if unat off < 32 then Inr (push_bit (unat off) m) else Inl Bad_shift)"

definition unlock_door :: "'r signal_op \<Rightarrow> nat \<Rightarrow> u32 \<Rightarrow> 'r sys \<Rightarrow> (u32 \<times> 'r sys) cres" where
  "unlock_door rsig i m s =
     (let d = door_at s i
      in cbind (shifted_mask (m AND maskFull d AND NOT (airLockMask d) AND NOT (admDisableMask d)) (maskOffset d)) (\<lambda>m.
         if m \<noteq> 0
         then cbind (airLockOnPartner rsig i (NOT 0) s) (\<lambda>s.
              let s = emit (map (\<lambda>(l, v). Gpio l v) (set_door_state DO_UNLOCK m)) s;
                  s = emit [Event (EVENT_DOOR_UNLOCK (doorName (door_at s i)) m)] s;
                  s = upd_door i (\<lambda>d. d\<lparr>door_lock_timer := DOOR_OPEN_TIME\<rparr>) s
              in cbind (door_signal rsig i SIGNAL_DOOR_OPEN s) (\<lambda>s. Inr (m, s)))
         else Inr (m, s)))"

definition lock_door :: "'r signal_op \<Rightarrow> nat \<Rightarrow> u32 \<Rightarrow> 'r sys \<Rightarrow> (u32 \<times> 'r sys) cres" where
  "lock_door rsig i m s =
     (let d = door_at s i
      in cbind (shifted_mask (m AND maskFull d AND NOT (admDisableMask d)) (maskOffset d)) (\<lambda>m.
         if m \<noteq> 0
         then let s = emit (map (\<lambda>(l, v). Gpio l v) (set_door_state DO_LOCK m)) s
              in cbind (airLockOnPartner rsig i 0 s) (\<lambda>s.
                 let s = emit [Event (EVENT_DOOR_LOCK (doorName (door_at s i)) m)] s
                 in cbind (door_signal rsig i SIGNAL_DOOR_LOCK s) (\<lambda>s. Inr (m, s)))
         else Inr (m, s)))"

subsection \<open>Inputs and alarm\<close>

definition door_event :: "(string \<Rightarrow> event) \<Rightarrow> nat \<Rightarrow> 'r sys \<Rightarrow> 'r sys" where
  "door_event ev i s = emit [Event (ev (doorName (door_at s i)))] s"

definition process_diff :: "'r signal_op \<Rightarrow> nat \<Rightarrow> u8 \<Rightarrow> u8 \<Rightarrow> 'r sys \<Rightarrow> 'r sys cres" where
  "process_diff rsig i inp diff s =
     cbind (if diff AND DI_MANUAL_OPEN \<noteq> 0 \<and> inp AND DI_MANUAL_OPEN \<noteq> 0
            then cbind (unlock_door rsig i 1 (door_event EVENT_MANUAL_OPEN i s)) (\<lambda>(_, s). Inr s)
            else Inr s) (\<lambda>s.
     cbind (if diff AND DI_IS_EMERGENCY_OPEN \<noteq> 0
            then if inp AND DI_IS_EMERGENCY_OPEN \<noteq> 0
                 then airLockOnPartner rsig i (NOT 0) (door_event EVENT_DOOR_EMERGENCY_ACTIVE i s)
                 else Inr (door_event EVENT_DOOR_EMERGENCY_INACTIVE i s)
            else Inr s) (\<lambda>s.
     cbind (if diff AND DI_IS_DOOR_CLOSE \<noteq> 0
            then if inp AND DI_IS_DOOR_CLOSE \<noteq> 0
                 then airLockOnPartner rsig i 0 (door_event EVENT_DOOR_IS_CLOSE i s)
                 else airLockOnPartner rsig i (NOT 0) (door_event EVENT_DOOR_IS_OPEN i s)
            else Inr s) (\<lambda>s.
     let s = (if diff AND DI_IS_DOOR_LOCK \<noteq> 0
              then if inp AND DI_IS_DOOR_LOCK \<noteq> 0
                   then door_event EVENT_DOOR_IS_LOCK i s
                   else door_event EVENT_DOOR_IS_UNLOCK i s
              else s)
     in Inr (upd_door i (\<lambda>d. d\<lparr>lastInput := inp\<rparr>) s))))"

definition alarm_of :: "u8 \<Rightarrow> u8" where
  "alarm_of inp =
     ((inp OR ALARM_MASK) AND (DI_IS_EMERGENCY_OPEN OR DI_IS_DOOR_CLOSE OR DI_IS_DOOR_LOCK))
       XOR (DI_IS_DOOR_CLOSE OR DI_IS_DOOR_LOCK)"

text \<open>The new timer and whether \<open>EVENT_DOOR_OPEN_ALARM\<close> is sent.\<close>

definition alarm_step :: "u8 \<Rightarrow> int \<Rightarrow> int \<times> bool" where
  "alarm_step alarm t =
     (if alarm \<noteq> 0
      then if t = 0 then (ALARM_RESEND_TIMER, False)
           else if t - 1 = 0 then (ALARM_RESEND_TIMER, True)
           else (t - 1, False)
      else (0, False))"

definition check_door :: "'r signal_op \<Rightarrow> nat \<Rightarrow> u8 \<Rightarrow> 'r sys \<Rightarrow> 'r sys cres" where
  "check_door rsig i inp s =
     (let last = lastInput (door_at s i);
          diff = (if last AND DI_STATE_IS_DIFF \<noteq> 0 then last else inp XOR last)
      in cbind (if diff \<noteq> 0 then process_diff rsig i inp diff s else Inr s) (\<lambda>s.
         let alarm = alarm_of inp;
             (t, send) = alarm_step alarm (alarm_timers (door_at s i));
             s = (if send then emit [Event (EVENT_DOOR_OPEN_ALARM (doorName (door_at s i)) alarm)] s else s)
         in Inr (upd_door i (\<lambda>d. d\<lparr>alarm_timers := t\<rparr>) s)))"

definition fetch_init :: "'a option list \<Rightarrow> nat \<Rightarrow> 'a cres" where
  "fetch_init xs i =
     cbind (fetch xs i) (\<lambda>v. case v of None \<Rightarrow> Inl Uninitialised | Some x \<Rightarrow> Inr x)"

definition check_inputs :: "'r signal_op \<Rightarrow> gpio_result \<Rightarrow> 'r sys \<Rightarrow> 'r sys cres" where
  "check_inputs rsig rd s =
     (let n = length (doors s)
      in if 32 \<le> n then Inl Bad_shift
         else cbind (get_input_state rd (replicate n None) (NOT (push_bit n (NOT 0)))) (\<lambda>inputVal.
              cfold (\<lambda>i s. cbind (fetch_init inputVal i) (\<lambda>inp. check_door rsig i inp s)) [0..<n] s))"

subsection \<open>Reader data\<close>

definition invalidUsage :: "'r signal_op \<Rightarrow> nat \<Rightarrow> 'r sys \<Rightarrow> 'r sys cres" where
  "invalidUsage rsig h s = call_signal rsig SIGNAL_ERR_USAGE h s"

definition authError :: "'r signal_op \<Rightarrow> nat \<Rightarrow> 'r sys \<Rightarrow> 'r sys cres" where
  "authError rsig h s = call_signal rsig SIGNAL_ERR_AUTH h s"

definition invalidData :: "'r signal_op \<Rightarrow> nat \<Rightarrow> 'r sys \<Rightarrow> 'r sys cres" where
  "invalidData rsig h s = call_signal rsig SIGNAL_ERR_COMM h s"

text \<open>The first part of \<open>process_user_info\<close>: storing the data, or the error it returns with.\<close>

datatype data_error = Invalid_data | Invalid_usage

definition store_data ::
  "u8 list \<Rightarrow> data_type \<Rightarrow> data_mode \<Rightarrow> door_reader \<Rightarrow> (door_reader \<times> data_error option) cres" where
  "store_data data dataType dataMode dr =
     (let dataLen = length data
      in case dataMode of
           DATA_OK \<Rightarrow>
             (case dataType of
                DATA_IS_PIN \<Rightarrow>
                  if dataLen > MAX_PIN_LEN then Inr (resetDoorAuth dr, Some Invalid_data)
                  else if pinLen dr \<noteq> 0 then Inr (resetDoorAuth dr, Some Invalid_usage)
                  else cbind (memcpy (dr_pin dr) 0 data 0 dataLen) (\<lambda>p.
                       cbind (store p dataLen 0) (\<lambda>p.
                       Inr (dr\<lparr>dr_pin := p, pinLen := dataLen\<rparr>, None)))
              | DATA_IS_CARD \<Rightarrow>
                  if dataLen > MAX_CARD_LEN then Inr (resetDoorAuth dr, Some Invalid_data)
                  else if cardLen dr \<noteq> 0
                  then if accessMode dr \<noteq> MODE_TWO_CARDS \<or> card2Len dr \<noteq> 0
                       then Inr (resetDoorAuth dr, Some Invalid_usage)
                       else cbind (memcpy (dr_card2 dr) 0 data 0 dataLen) (\<lambda>c.
                            Inr (dr\<lparr>dr_card2 := c, card2Len := dataLen\<rparr>, None))
                  else cbind (memcpy (dr_card dr) 0 data 0 dataLen) (\<lambda>c.
                       Inr (dr\<lparr>dr_card := c, cardLen := dataLen\<rparr>, None)))
         | DATA_OUT_OF_BUF \<Rightarrow> Inr (resetDoorAuth dr, Some Invalid_data)
         | DATA_TIMEOUT \<Rightarrow> Inr (resetDoorAuth dr, Some Invalid_usage))"

definition getAccessMask :: "door_reader \<Rightarrow> u8 \<Rightarrow> string \<Rightarrow> auth_db \<Rightarrow> (u32 \<times> event list) cres" where
  "getAccessMask dr mode doorname db =
     getAccessMask2 (dr_pin dr) (pinLen dr) (dr_card dr) (cardLen dr) mode doorname db"

definition checkKeyAccess :: "door_reader \<Rightarrow> auth_db \<Rightarrow> (u32 \<times> event list) cres" where
  "checkKeyAccess dr db = checkKeyAccess2 (dr_card dr) (cardLen dr) (dr_card2 dr) (card2Len dr) db"

text \<open>
  The switch over \<open>accessMode\<close>. It works on the local reader data; the result holds the new
  data, \<open>auth_mask\<close>, the events of the database calls, and whether \<open>SIGNAL_PIN\<close> is to be sent.
\<close>

definition start_two_factor :: "door_reader \<Rightarrow> event list \<Rightarrow> door_reader \<times> u32 \<times> event list \<times> bool" where
  "start_two_factor dr evs =
     (if tf_timer dr = 0 then (dr\<lparr>tf_timer := TWO_FACTOR_TIME\<rparr>, 0, evs, True) else (dr, 0, evs, False))"

definition auth_switch ::
  "door_reader \<Rightarrow> string \<Rightarrow> auth_db \<Rightarrow> (door_reader \<times> u32 \<times> event list \<times> bool) cres" where
  "auth_switch dr name db =
     (if accessMode dr = MODE_CARD_OR_PIN
      then if cardLen dr \<noteq> 0
           then cbind (getAccessMask dr MODE_CARD name db) (\<lambda>(m, evs). Inr (dr, m, evs, False))
           else if pinLen dr \<noteq> 0
           then cbind (getAccessMask dr MODE_PIN name db) (\<lambda>(m, evs). Inr (dr, m, evs, False))
           else Inr (dr, 0, [], False)
      else if accessMode dr = MODE_CARD
      then if cardLen dr \<noteq> 0
           then cbind (getAccessMask dr (accessMode dr) name db) (\<lambda>(m, evs). Inr (dr, m, evs, False))
           else Inr (dr, 0, [], False)
      else if accessMode dr = MODE_PIN
      then if pinLen dr \<noteq> 0
           then cbind (getAccessMask dr (accessMode dr) name db) (\<lambda>(m, evs). Inr (dr, m, evs, False))
           else Inr (dr, 0, [], False)
      else if accessMode dr = MODE_CARD_AND_PIN \<or> accessMode dr = MODE_CARD_AND_PIN_ALWAYS
      then if cardLen dr \<noteq> 0 \<and> pinLen dr \<noteq> 0
           then cbind (getAccessMask dr MODE_CARD_AND_PIN_ALWAYS name db) (\<lambda>(m, evs).
                Inr (dr\<lparr>tf_timer := 0\<rparr>, m, evs, False))
           else if cardLen dr \<noteq> 0 \<and> accessMode dr = MODE_CARD_AND_PIN
           then cbind (getAccessMask dr MODE_CARD_AND_PIN name db) (\<lambda>(m, evs).
                if m \<noteq> 0 then Inr (dr\<lparr>tf_timer := 0\<rparr>, m, evs, False)
                else Inr (start_two_factor dr evs))
           else Inr (start_two_factor dr [])
      else if accessMode dr = MODE_TWO_CARDS
      then if cardLen dr \<noteq> 0 \<and> card2Len dr \<noteq> 0
           then cbind (checkKeyAccess dr db) (\<lambda>(m, evs).
                Inr (dr\<lparr>tf_timer := 0, card2Len := 0\<rparr>, m, evs, False))
           else Inr (start_two_factor dr [])
      else Inr (dr, 0, [], False))"

definition reader_side :: "nat \<Rightarrow> door \<Rightarrow> side option" where
  "reader_side h d =
     (if dr_reader (readerA d) = Some h then Some SideA
      else if dr_reader (readerB d) = Some h then Some SideB else None)"

definition process_user_info :: "'r signal_op \<Rightarrow> auth_db \<Rightarrow> 'r callback" where
  "process_user_info rsig db data dataType dataMode reader i s =
     (case reader_side reader (door_at s i) of
        None \<Rightarrow> invalidData rsig reader s
      | Some sd \<Rightarrow>
          cbind (store_data data dataType dataMode (get_dr sd (door_at s i))) (\<lambda>(dr, err).
          let s = upd_dr i sd (\<lambda>_. dr) s
          in case err of
               Some Invalid_data \<Rightarrow> invalidData rsig reader s
             | Some Invalid_usage \<Rightarrow> invalidUsage rsig reader s
             | None \<Rightarrow>
                 cbind (auth_switch dr (doorName (door_at s i)) db) (\<lambda>(dr, auth_mask, evs, ask).
                 let s = emit (map Event evs) s
                 in cbind (if ask then call_signal rsig SIGNAL_PIN reader s else Inr s) (\<lambda>s.
                    let s = upd_dr i sd (\<lambda>_. dr) s
                    in if auth_mask \<noteq> 0
                       then cbind (unlock_door rsig i auth_mask s) (\<lambda>(_, s).
                            Inr (upd_dr i sd resetDoorAuth s))
                       else if tf_timer dr = 0
                       then cbind (authError rsig reader s) (\<lambda>s. Inr (upd_dr i sd resetDoorAuth s))
                       else Inr s))))"

subsection \<open>The main loop\<close>

definition two_factor_timer ::
  "'r signal_op \<Rightarrow> ('r \<Rightarrow> 'r) \<Rightarrow> nat \<Rightarrow> side \<Rightarrow> 'r sys \<Rightarrow> 'r sys cres" where
  "two_factor_timer rsig rclear i sd s =
     (let dr = get_dr sd (door_at s i)
      in if tf_timer dr > 0
         then let t = tf_timer dr - 1;
                  s = upd_dr i sd (\<lambda>dr. dr\<lparr>tf_timer := t\<rparr>) s
              in if t \<le> 0
                 then let s = upd_dr i sd resetDoorAuth s
                      in case dr_reader dr of
                           None \<Rightarrow> Inl Null_pointer
                         | Some h \<Rightarrow> invalidUsage rsig h (upd_reader h (rclear (readers s h)) s)
                 else case dr_reader dr of
                        None \<Rightarrow> Inl Null_pointer
                      | Some h \<Rightarrow> call_signal rsig SIGNAL_PIN_QUIET h s
         else Inr s)"

definition lock_timer :: "'r signal_op \<Rightarrow> nat \<Rightarrow> 'r sys \<Rightarrow> 'r sys cres" where
  "lock_timer rsig i s =
     (if door_lock_timer (door_at s i) \<noteq> 0
      then let s = upd_door i (\<lambda>d. d\<lparr>door_lock_timer := door_lock_timer d - 1\<rparr>) s
           in if door_lock_timer (door_at s i) \<le> 0
              then cbind (lock_door rsig i (maskFull (door_at s i)) s) (\<lambda>(_, s). Inr s)
              else Inr s
      else Inr s)"

definition poll_reader ::
  "'r signal_op \<Rightarrow> 'r get_op \<Rightarrow> auth_db \<Rightarrow> nat \<Rightarrow> side \<Rightarrow> 'r sys \<Rightarrow> 'r sys cres" where
  "poll_reader rsig rget db i sd s =
     (case dr_reader (get_dr sd (door_at s i)) of
        None \<Rightarrow> Inr s
      | Some h \<Rightarrow> rget (process_user_info rsig db) h 0 s)"

definition door_cycle ::
  "'r signal_op \<Rightarrow> ('r \<Rightarrow> 'r) \<Rightarrow> 'r get_op \<Rightarrow> auth_db \<Rightarrow> nat \<Rightarrow> 'r sys \<Rightarrow> 'r sys cres" where
  "door_cycle rsig rclear rget db i s =
     cbind (lock_timer rsig i s) (\<lambda>s.
     cbind (two_factor_timer rsig rclear i SideA s) (\<lambda>s.
     cbind (two_factor_timer rsig rclear i SideB s) (\<lambda>s.
     cbind (poll_reader rsig rget db i SideA s) (\<lambda>s.
     poll_reader rsig rget db i SideB s))))"

definition mainLoop ::
  "'r signal_op \<Rightarrow> ('r \<Rightarrow> 'r) \<Rightarrow> 'r get_op \<Rightarrow> auth_db \<Rightarrow> gpio_result \<Rightarrow> 'r sys \<Rightarrow> 'r sys cres" where
  "mainLoop rsig rclear rget db rd s =
     cbind (cfold (door_cycle rsig rclear rget db) [0..<length (doors s)] s) (check_inputs rsig rd)"

end
