(* ===== verification/Door_Steps.thy ===== *)
theory Door_Steps
  imports Door_Controller
begin

text \<open>
  The door controller as a state machine: well-formed states, the elementary steps into which
  every operation decomposes, and, inside a locale that states what is relied on of
  \<open>reader_signal\<close>, the proof that the operations on doors and inputs return, stay inside the
  well-formed states and are runs of elementary steps.
\<close>


subsection \<open>Well-formed states\<close>

definition wf_dr :: "door_reader \<Rightarrow> bool" where
  "wf_dr dr \<longleftrightarrow>
     length (dr_card dr) = 16 \<and> length (dr_card2 dr) = 16 \<and> length (dr_pin dr) = 17 \<and>
     cardLen dr \<le> 16 \<and> pinLen dr \<le> 16 \<and> card2Len dr \<le> 16 \<and>
     0 \<le> tf_timer dr \<and> tf_timer dr \<le> TWO_FACTOR_TIME \<and>
     (tf_timer dr > 0 \<longrightarrow> dr_reader dr \<noteq> None)"

text \<open>
  Credentials are held only while a two factor dialogue is running. This holds between the
  operations, not inside \<open>process_user_info\<close>.
\<close>

definition creds_ok :: "door_reader \<Rightarrow> bool" where
  "creds_ok dr \<longleftrightarrow> card2Len dr = 0 \<and> (tf_timer dr = 0 \<longrightarrow> cardLen dr = 0 \<and> pinLen dr = 0)"

definition wf_door :: "nat \<Rightarrow> nat \<Rightarrow> door \<Rightarrow> bool" where
  "wf_door n i d \<longleftrightarrow>
     unat (maskOffset d) < 32 \<and> (\<forall>p. airLockPartnerLocal d = Some p \<longrightarrow> p < n \<and> p \<noteq> i) \<and>
     0 \<le> door_lock_timer d \<and> door_lock_timer d \<le> DOOR_OPEN_TIME \<and>
     0 \<le> alarm_timers d \<and> alarm_timers d \<le> ALARM_RESEND_TIMER \<and>
     (\<forall>sd. wf_dr (get_dr sd d))"

definition wf_sys :: "('r \<Rightarrow> bool) \<Rightarrow> ('r \<Rightarrow> nat) \<Rightarrow> 'r sys \<Rightarrow> bool" where
  "wf_sys link_ok owner s \<longleftrightarrow>
     length (doors s) \<le> 2 \<and> (\<forall>h. link_ok (readers s h)) \<and>
     (\<forall>i < length (doors s). wf_door (length (doors s)) i (door_at s i) \<and>
        (\<forall>sd h. dr_reader (get_dr sd (door_at s i)) = Some h \<longrightarrow> owner (readers s h) = i))"

subsection \<open>Elementary steps\<close>

definition quiet_action :: "action \<Rightarrow> bool" where
  "quiet_action x \<longleftrightarrow> (case x of Gpio _ _ \<Rightarrow> False | Event (EVENT_DOOR_UNLOCK _ _) \<Rightarrow> False | _ \<Rightarrow> True)"

definition gpio_actions :: "door_operation \<Rightarrow> u32 \<Rightarrow> action list" where
  "gpio_actions op m = map (\<lambda>(l, v). Gpio l v) (set_door_state op m)"

text \<open>
  A quiet step does not count a door's lock timer down. The flag tells whether the credentials
  of a reader may change.
\<close>

inductive quiet_step :: "bool \<Rightarrow> 'r sys \<Rightarrow> 'r sys \<Rightarrow> bool" where
  reader: "quiet_step b s (upd_reader h r s)"
| note_down: "\<forall>x\<in>set outs. quiet_action x \<Longrightarrow> quiet_step b s (emit outs s)"
| reader_data: "i < length (doors s) \<Longrightarrow>
    dr_reader (f (get_dr sd (door_at s i))) = dr_reader (get_dr sd (door_at s i)) \<Longrightarrow>
    accessMode (f (get_dr sd (door_at s i))) = accessMode (get_dr sd (door_at s i)) \<Longrightarrow>
    quiet_step True s (upd_dr i sd f s)"
| inputs: "i < length (doors s) \<Longrightarrow> quiet_step b s (upd_door i (\<lambda>d. d\<lparr>lastInput := inp\<rparr>) s)"
| alarm: "i < length (doors s) \<Longrightarrow> quiet_step b s (upd_door i (\<lambda>d. d\<lparr>alarm_timers := t\<rparr>) s)"
| block: "i < length (doors s) \<Longrightarrow> airLockPartnerLocal (door_at s i) = Some p \<Longrightarrow> p < length (doors s) \<Longrightarrow>
    quiet_step b s (upd_door p (\<lambda>q. q\<lparr>airLockMask := maskFull q\<rparr>) s)"
| release: "i < length (doors s) \<Longrightarrow> airLockPartnerLocal (door_at s i) = Some p \<Longrightarrow> p < length (doors s) \<Longrightarrow>
    door_lock_timer (door_at s i) \<le> 0 \<Longrightarrow> lastInput (door_at s i) AND DI_IS_DOOR_CLOSE \<noteq> 0 \<Longrightarrow>
    quiet_step b s (upd_door p (\<lambda>q. q\<lparr>airLockMask := 0\<rparr>) s)"
| unlock: "i < length (doors s) \<Longrightarrow> d = door_at s i \<Longrightarrow> unat (maskOffset d) < 32 \<Longrightarrow>
    m = push_bit (unat (maskOffset d)) (req AND maskFull d AND NOT (airLockMask d) AND NOT (admDisableMask d)) \<Longrightarrow>
    m \<noteq> 0 \<Longrightarrow>
    (\<forall>p. airLockPartnerLocal d = Some p \<longrightarrow> airLockMask (door_at s p) = maskFull (door_at s p)) \<Longrightarrow>
    quiet_step b s (upd_door i (\<lambda>d. d\<lparr>door_lock_timer := DOOR_OPEN_TIME\<rparr>)
      (emit (gpio_actions DO_UNLOCK m @ [Event (EVENT_DOOR_UNLOCK (doorName d) m)]) s))"

inductive timer_step :: "nat \<Rightarrow> 'r sys \<Rightarrow> 'r sys \<Rightarrow> bool" where
  idle: "i < length (doors s) \<Longrightarrow> door_lock_timer (door_at s i) = 0 \<Longrightarrow> timer_step i s s"
| tick: "i < length (doors s) \<Longrightarrow> 1 < door_lock_timer (door_at s i) \<Longrightarrow>
    timer_step i s (upd_door i (\<lambda>d. d\<lparr>door_lock_timer := door_lock_timer d - 1\<rparr>) s)"
| expire: "i < length (doors s) \<Longrightarrow> d = door_at s i \<Longrightarrow> door_lock_timer d = 1 \<Longrightarrow> unat (maskOffset d) < 32 \<Longrightarrow>
    m = push_bit (unat (maskOffset d)) (maskFull d AND NOT (admDisableMask d)) \<Longrightarrow>
    timer_step i s (emit (gpio_actions DO_LOCK m) (upd_door i (\<lambda>d. d\<lparr>door_lock_timer := 0\<rparr>) s))"

definition door_step :: "'r sys \<Rightarrow> 'r sys \<Rightarrow> bool" where
  "door_step s t \<longleftrightarrow> quiet_step True s t \<or> (\<exists>i. timer_step i s t)"

lemma emit_emit: "emit ys (emit xs s) = emit (xs @ ys) s"
  by (simp add: emit_def)

text \<open>Equal doors and an equal history but for reader signals.\<close>

fun is_signal :: "action \<Rightarrow> bool" where
  "is_signal (Signal _ _) = True"
| "is_signal _ = False"

definition visible :: "'r sys \<Rightarrow> action list" where
  "visible s = filter (\<lambda>x. \<not> is_signal x) (trace s)"

definition agree :: "'r sys \<Rightarrow> 'r sys \<Rightarrow> bool" where
  "agree s t \<longleftrightarrow> doors t = doors s \<and> visible t = visible s"

lemma agree_refl [simp]: "agree s s"
  by (simp add: agree_def)

lemma agree_trans: "agree s t \<Longrightarrow> agree t u \<Longrightarrow> agree s u"
  by (simp add: agree_def)

lemma agree_door_at: "agree s t \<Longrightarrow> door_at t = door_at s"
  by (simp add: agree_def door_at_def fun_eq_iff)

lemma agree_length: "agree s t \<Longrightarrow> length (doors t) = length (doors s)"
  by (simp add: agree_def)

lemma visible_frames [simp]:
  "visible (upd_door i f s) = visible s" "visible (upd_dr i sd g s) = visible s"
  "visible (upd_reader h r s) = visible s"
  "visible (emit outs s) = rev (filter (\<lambda>x. \<not> is_signal x) outs) @ visible s"
  by (simp_all add: visible_def rev_filter)

text \<open>Outcome of an operation: well-formed, and reached by quiet steps.\<close>

definition quiet_run :: "bool \<Rightarrow> ('r \<Rightarrow> bool) \<Rightarrow> ('r \<Rightarrow> nat) \<Rightarrow> 'r sys \<Rightarrow> 'r sys \<Rightarrow> bool" where
  "quiet_run b link_ok owner s t \<longleftrightarrow>
     wf_sys link_ok owner t \<and> (quiet_step b)\<^sup>*\<^sup>* s t \<and> length (doors t) = length (doors s)"

lemma quiet_run_trans: "quiet_run b ok ow s t \<Longrightarrow> quiet_run b ok ow t u \<Longrightarrow> quiet_run b ok ow s u"
  by (auto simp: quiet_run_def)

lemma quiet_run_refl [simp]: "wf_sys ok ow s \<Longrightarrow> quiet_run b ok ow s s"
  by (simp add: quiet_run_def)

lemma quiet_run_step:
  "quiet_step b s t \<Longrightarrow> wf_sys ok ow t \<Longrightarrow> length (doors t) = length (doors s) \<Longrightarrow> quiet_run b ok ow s t"
  by (simp add: quiet_run_def r_into_rtranclp)

lemma quiet_run_mono: "quiet_run False ok ow s t \<Longrightarrow> quiet_run b ok ow s t"
proof -
  have "quiet_step False u v \<Longrightarrow> quiet_step b u v" for u v :: "'a sys"
    by (induction rule: quiet_step.cases) (auto intro: quiet_step.intros)
  then show "quiet_run False ok ow s t \<Longrightarrow> quiet_run b ok ow s t"
    by (auto simp: quiet_run_def elim: rtranclp_mono [THEN predicate2D, rotated])
qed

lemma quiet_run_wf: "quiet_run b ok ow s t \<Longrightarrow> wf_sys ok ow t"
  by (simp add: quiet_run_def)

lemma quiet_run_length: "quiet_run b ok ow s t \<Longrightarrow> length (doors t) = length (doors s)"
  by (simp add: quiet_run_def)

text \<open>What \<open>airLockOnPartner\<close> does to the doors.\<close>

definition block_partner :: "nat \<Rightarrow> 'r sys \<Rightarrow> 'r sys" where
  "block_partner i s =
     (case airLockPartnerLocal (door_at s i) of
        None \<Rightarrow> s | Some p \<Rightarrow> upd_door p (\<lambda>q. q\<lparr>airLockMask := maskFull q\<rparr>) s)"

definition release_partner :: "nat \<Rightarrow> 'r sys \<Rightarrow> 'r sys" where
  "release_partner i s =
     (case airLockPartnerLocal (door_at s i) of
        None \<Rightarrow> s
      | Some p \<Rightarrow>
          if door_lock_timer (door_at s i) \<le> 0 \<and> lastInput (door_at s i) AND DI_IS_DOOR_CLOSE \<noteq> 0
          then upd_door p (\<lambda>q. q\<lparr>airLockMask := 0\<rparr>) s else s)"

lemma closed_flag: "x AND DI_IS_DOOR_CLOSE = DI_IS_DOOR_CLOSE \<longleftrightarrow> x AND DI_IS_DOOR_CLOSE \<noteq> 0" for x :: u8
proof -
  have "x AND push_bit 2 1 = (if bit x 2 then push_bit 2 1 else 0)"
    by (rule bit_word_eqI) (auto simp: bit_simps simp del: push_bit_of_1)
  then show ?thesis by (auto split: if_splits)
qed

lemma wf_door_frames [simp]:
  "wf_door n i (d\<lparr>airLockMask := m\<rparr>) \<longleftrightarrow> wf_door n i d"
  "wf_door n i (d\<lparr>lastInput := inp\<rparr>) \<longleftrightarrow> wf_door n i d"
  "wf_door n i d \<Longrightarrow> 0 \<le> t \<Longrightarrow> t \<le> DOOR_OPEN_TIME \<Longrightarrow> wf_door n i (d\<lparr>door_lock_timer := t\<rparr>)"
  "wf_door n i d \<Longrightarrow> 0 \<le> t \<Longrightarrow> t \<le> ALARM_RESEND_TIMER \<Longrightarrow> wf_door n i (d\<lparr>alarm_timers := t\<rparr>)"
  by (simp_all add: wf_door_def)

lemma wf_door_set_dr: "wf_door n i d \<Longrightarrow> wf_dr dr \<Longrightarrow> wf_door n i (set_dr sd dr d)"
  by (auto simp: wf_door_def)

lemma wf_doorD:
  "wf_door n i d \<Longrightarrow> unat (maskOffset d) < 32"
  "wf_door n i d \<Longrightarrow> airLockPartnerLocal d = Some p \<Longrightarrow> p < n \<and> p \<noteq> i"
  "wf_door n i d \<Longrightarrow> 0 \<le> door_lock_timer d \<and> door_lock_timer d \<le> DOOR_OPEN_TIME"
  "wf_door n i d \<Longrightarrow> 0 \<le> alarm_timers d \<and> alarm_timers d \<le> ALARM_RESEND_TIMER"
  "wf_door n i d \<Longrightarrow> wf_dr (get_dr sd d)"
  by (simp_all add: wf_door_def)

lemma wf_sysD: "wf_sys ok ow s \<Longrightarrow> i < length (doors s) \<Longrightarrow> wf_door (length (doors s)) i (door_at s i)"
  by (simp add: wf_sys_def)

lemma wf_sys_partner:
  "wf_sys ok ow s \<Longrightarrow> i < length (doors s) \<Longrightarrow> airLockPartnerLocal (door_at s i) = Some p \<Longrightarrow>
     p < length (doors s) \<and> p \<noteq> i"
  using wf_sysD wf_doorD(2) by blast

text \<open>The masks \<open>unlock_door\<close> and \<open>lock_door\<close> drive, and the states they leave but for the signals.\<close>

definition unlock_mask :: "u32 \<Rightarrow> door \<Rightarrow> u32" where
  "unlock_mask m d =
     push_bit (unat (maskOffset d)) (m AND maskFull d AND NOT (airLockMask d) AND NOT (admDisableMask d))"

definition lock_mask :: "u32 \<Rightarrow> door \<Rightarrow> u32" where
  "lock_mask m d = push_bit (unat (maskOffset d)) (m AND maskFull d AND NOT (admDisableMask d))"

definition unlocked_state :: "nat \<Rightarrow> u32 \<Rightarrow> 'r sys \<Rightarrow> 'r sys" where
  "unlocked_state i m s =
     upd_door i (\<lambda>d. d\<lparr>door_lock_timer := DOOR_OPEN_TIME\<rparr>)
       (emit (gpio_actions DO_UNLOCK m @ [Event (EVENT_DOOR_UNLOCK (doorName (door_at s i)) m)])
         (block_partner i s))"

definition locked_state :: "nat \<Rightarrow> u32 \<Rightarrow> 'r sys \<Rightarrow> 'r sys" where
  "locked_state i m s =
     emit [Event (EVENT_DOOR_LOCK (doorName (door_at s i)) m)]
       (release_partner i (emit (gpio_actions DO_LOCK m) s))"

lemma get_input_state_all:
  assumes "n \<le> 2"
  shows "get_input_state rd (replicate n None) (mask n) =
    Inr (map (\<lambda>i. Some (input_byte (inputsValues rd) i)) [0..<n])"
proof -
  have m: "mask 0 = (0 :: u32)" "mask 1 = (1 :: u32)" "mask 2 = (3 :: u32)"
    by (simp_all add: mask_eq_exp_minus_1)
  consider "n = 0" | "n = 1" | "n = 2" using assms by linarith
  then show ?thesis
  proof cases
    case 1
    then show ?thesis by (simp add: get_input_state_def upt_rec)
  next
    case 2
    have "replicate 1 None = [None :: u8 option]" "[0..<1] = [0]" by (simp_all add: upt_rec)
    then show ?thesis unfolding 2 m by (simp only: get_input_state_eq list.map)
  next
    case 3
    have "replicate 2 None = [None, None :: u8 option]" "[0..<2] = [0, 1]" by (simp_all add: upt_rec numeral_2_eq_2)
    then show ?thesis unfolding 3 m by (simp only: get_input_state_eq list.map)
  qed
qed

lemma alarm_step_range:
  "0 \<le> t \<Longrightarrow> t \<le> ALARM_RESEND_TIMER \<Longrightarrow>
    0 \<le> fst (alarm_step a t) \<and> fst (alarm_step a t) \<le> ALARM_RESEND_TIMER"
  by (simp add: alarm_step_def ALARM_RESEND_TIMER_def)

subsection \<open>The contract of \<open>reader_signal\<close>\<close>

locale reader_signals =
  fixes rsig :: "'r signal_op" and link_ok :: "'r \<Rightarrow> bool" and owner :: "'r \<Rightarrow> nat"
  assumes signal_ok: "link_ok r \<Longrightarrow> returns (rsig sg r) (\<lambda>r'. link_ok r' \<and> owner r' = owner r)"
begin

abbreviation wf :: "'r sys \<Rightarrow> bool" where "wf \<equiv> wf_sys link_ok owner"

abbreviation quietly :: "'r sys \<Rightarrow> 'r sys \<Rightarrow> bool" where
  "quietly \<equiv> quiet_run False link_ok owner"

lemma wf_upd_reader:
  "wf s \<Longrightarrow> link_ok r \<Longrightarrow> owner r = owner (readers s h) \<Longrightarrow> wf (upd_reader h r s)"
  by (auto simp: wf_sys_def)

lemma wf_emit: "wf s \<Longrightarrow> wf (emit outs s)"
  by (simp add: wf_sys_def)

lemma wf_upd_door:
  assumes "wf s" and "wf_door (length (doors s)) i (f (door_at s i))"
    and "\<And>sd. dr_reader (get_dr sd (f (door_at s i))) = dr_reader (get_dr sd (door_at s i))"
  shows "wf (upd_door i f s)"
  using assms by (auto simp: wf_sys_def)

lemma call_signal_ok:
  assumes "wf s"
  shows "returns (call_signal rsig sg h s) (\<lambda>t. quietly s t \<and> agree s t)"
proof -
  have "link_ok (readers s h)" using assms by (simp add: wf_sys_def)
  from signal_ok [OF this, of sg] obtain r where r: "rsig sg (readers s h) = Inr r" "link_ok r" "owner r = owner (readers s h)"
    by (auto simp: returns_iff)
  have w: "wf (upd_reader h r s)" using assms r by (simp add: wf_upd_reader)
  have "quietly s (upd_reader h r s)"
    using w by (simp add: quiet_run_step quiet_step.reader)
  moreover have "quiet_step False (upd_reader h r s) (emit [Signal h sg] (upd_reader h r s))"
    by (rule quiet_step.note_down) (simp add: quiet_action_def)
  then have "quietly (upd_reader h r s) (emit [Signal h sg] (upd_reader h r s))"
    using w by (simp add: quiet_run_step wf_emit)
  ultimately show ?thesis
    using r by (auto simp: call_signal_def agree_def intro: quiet_run_trans)
qed

lemma signal_if_ok:
  "wf s \<Longrightarrow> returns (signal_if rsig sg h s) (\<lambda>t. quietly s t \<and> agree s t)"
  using call_signal_ok by (simp add: signal_if_def split: option.split)

lemma returns_then:
  assumes "returns r (\<lambda>t. quietly s t \<and> P t)"
    and "\<And>t. wf t \<Longrightarrow> length (doors t) = length (doors s) \<Longrightarrow> P t \<Longrightarrow> returns (k t) (\<lambda>u. quietly t (f u) \<and> Q u)"
  shows "returns (cbind r k) (\<lambda>u. quietly s (f u) \<and> Q u)"
proof -
  from assms(1) obtain t where t: "r = Inr t" "quietly s t" "P t" by (auto simp: returns_iff)
  then have "returns (k t) (\<lambda>u. quietly t (f u) \<and> Q u)"
    by (auto intro: assms(2) quiet_run_wf quiet_run_length)
  then show ?thesis
    using t by (auto simp: returns_iff intro: quiet_run_trans)
qed

lemma door_signal_ok:
  assumes "wf s"
  shows "returns (door_signal rsig i sg s) (\<lambda>t. quietly s t \<and> agree s t)"
  unfolding door_signal_def
proof (rule returns_then [where f = "\<lambda>u. u", OF signal_if_ok [OF assms]])
  fix t assume "wf t" and "agree s t"
  then show "returns (signal_if rsig sg (dr_reader (readerB (door_at t i))) t) (\<lambda>u. quietly t u \<and> agree s u)"
    by (intro returns_mono [OF signal_if_ok]) (auto intro: agree_trans)
qed

lemma signalDoorStatus_ok:
  "wf s \<Longrightarrow> returns (signalDoorStatus rsig i s) (\<lambda>t. quietly s t \<and> agree s t)"
  unfolding signalDoorStatus_def by (simp only: door_signal_ok split: if_split) simp

lemma block_partner_ok:
  assumes "wf s" and "i < length (doors s)"
  shows "quietly s (block_partner i s)"
proof (cases "airLockPartnerLocal (door_at s i)")
  case None
  then show ?thesis using assms by (simp add: block_partner_def)
next
  case (Some p)
  then have p: "p < length (doors s)" using wf_sys_partner [OF assms] by simp
  then have "wf (upd_door p (\<lambda>q. q\<lparr>airLockMask := maskFull q\<rparr>) s)"
    using assms(1) p by (intro wf_upd_door) (simp_all add: wf_sysD)
  then show ?thesis
    using quiet_step.block [OF assms(2) Some p] by (simp add: block_partner_def Some quiet_run_step)
qed

lemma release_partner_ok:
  assumes "wf s" and "i < length (doors s)"
  shows "quietly s (release_partner i s)"
proof (cases "airLockPartnerLocal (door_at s i)")
  case None
  then show ?thesis using assms by (simp add: release_partner_def)
next
  case (Some p)
  then have p: "p < length (doors s)" using wf_sys_partner [OF assms] by simp
  then have "wf (upd_door p (\<lambda>q. q\<lparr>airLockMask := 0\<rparr>) s)"
    using assms(1) p by (intro wf_upd_door) (simp_all add: wf_sysD)
  then show ?thesis
    using quiet_step.release [OF assms(2) Some p] assms by (simp add: release_partner_def Some quiet_run_step)
qed

lemma airLock_block_ok:
  assumes "wf s" and "i < length (doors s)"
  shows "returns (airLockOnPartner rsig i (NOT 0) s) (\<lambda>t. quietly s t \<and> agree (block_partner i s) t)"
proof (cases "airLockPartnerLocal (door_at s i)")
  case None
  then show ?thesis using assms by (simp add: airLockOnPartner_def block_partner_def)
next
  case (Some p)
  have q: "quietly s (block_partner i s)" by (rule block_partner_ok [OF assms])
  then have "returns (signalDoorStatus rsig i (block_partner i s))
      (\<lambda>t. quietly (block_partner i s) t \<and> agree (block_partner i s) t)"
    by (intro signalDoorStatus_ok) (rule quiet_run_wf)
  then show ?thesis
    using q by (auto simp: airLockOnPartner_def Some Let_def block_partner_def elim!: returns_mono intro: quiet_run_trans)
qed

lemma airLock_release_ok:
  assumes "wf s" and "i < length (doors s)"
  shows "returns (airLockOnPartner rsig i 0 s) (\<lambda>t. quietly s t \<and> agree (release_partner i s) t)"
proof (cases "airLockPartnerLocal (door_at s i)")
  case None
  then show ?thesis using assms by (simp add: airLockOnPartner_def release_partner_def)
next
  case (Some p)
  have q: "quietly s (release_partner i s)" by (rule release_partner_ok [OF assms])
  then have "returns (signalDoorStatus rsig i (release_partner i s))
      (\<lambda>t. quietly (release_partner i s) t \<and> agree (release_partner i s) t)"
    by (intro signalDoorStatus_ok) (rule quiet_run_wf)
  then have "returns (signalDoorStatus rsig i (release_partner i s))
      (\<lambda>t. quietly s t \<and> agree (release_partner i s) t)"
    using q by (auto elim!: returns_mono intro: quiet_run_trans)
  then show ?thesis
    by (simp only: airLockOnPartner_def Some Let_def release_partner_def option.case if_True closed_flag simp_thms)
qed

lemma unlock_door_ok:
  assumes w: "wf s" and i: "i < length (doors s)" and um_def: "um = unlock_mask m (door_at s i)"
  shows "returns (unlock_door rsig i m s) (\<lambda>(r, t). quietly s t \<and> r = um \<and>
     agree (if um = 0 then s else unlocked_state i um s) t)"
proof -
  let ?d = "door_at s i"
  have d: "wf_door (length (doors s)) i ?d" using w i by (rule wf_sysD)
  have sm: "shifted_mask (m AND maskFull ?d AND NOT (airLockMask ?d) AND NOT (admDisableMask ?d)) (maskOffset ?d) = Inr um"
    using wf_doorD(1) [OF d] by (simp add: shifted_mask_def um_def unlock_mask_def)
  show ?thesis
  proof (cases "um = 0")
    case True
    then show ?thesis using w by (simp add: unlock_door_def sm)
  next
    case False
    let ?outs = "gpio_actions DO_UNLOCK um @ [Event (EVENT_DOOR_UNLOCK (doorName ?d) um)]"
    obtain t where t: "airLockOnPartner rsig i (NOT 0) s = Inr t" "quietly s t" "agree (block_partner i s) t"
      using airLock_block_ok [OF w i] by (auto simp: returns_iff)
    have lt: "i < length (doors t)" using i t(2) by (simp add: quiet_run_length)
    have same: "door_at t i = ?d" "\<forall>p. airLockPartnerLocal ?d = Some p \<longrightarrow> airLockMask (door_at t p) = maskFull (door_at t p)"
      using wf_sys_partner [OF w i] i
      by (auto simp: agree_door_at [OF t(3)] block_partner_def split: option.splits)
    define u where "u = upd_door i (\<lambda>d. d\<lparr>door_lock_timer := DOOR_OPEN_TIME\<rparr>) (emit ?outs t)"
    have wu: "wf u" unfolding u_def
    proof (rule wf_upd_door)
      show "wf (emit ?outs t)" using t(2) by (intro wf_emit) (rule quiet_run_wf)
      then show "wf_door (length (doors (emit ?outs t))) i (door_at (emit ?outs t) i\<lparr>door_lock_timer := DOOR_OPEN_TIME\<rparr>)"
        using wf_sysD [of link_ok owner "emit ?outs t" i] lt by (intro wf_door_frames) (simp_all add: DOOR_OPEN_TIME_def)
    qed simp
    have "quiet_step False t u"
      unfolding u_def using same lt wf_doorD(1) [OF d] False
      by (intro quiet_step.unlock [where req = m and d = ?d]) (simp_all add: um_def unlock_mask_def)
    then have "quietly s u"
      using wu t(2) by (intro quiet_run_trans [OF t(2)] quiet_run_step) (simp_all add: u_def)
    moreover have "agree (unlocked_state i um s) u"
      using t(3) by (simp add: agree_def u_def unlocked_state_def) (simp add: upd_door_def emit_def)
    moreover obtain v where "door_signal rsig i SIGNAL_DOOR_OPEN u = Inr v" "quietly u v" "agree u v"
      using door_signal_ok [OF wu] by (auto simp: returns_iff)
    moreover have "unlock_door rsig i m s = cbind (door_signal rsig i SIGNAL_DOOR_OPEN u) (\<lambda>s. Inr (um, s))"
      using False t(1) same(1) by (simp add: unlock_door_def sm emit_emit gpio_actions_def Let_def u_def)
    ultimately show ?thesis
      using False by (auto intro: quiet_run_trans agree_trans)
  qed
qed

lemma wf_quiet_emit:
  "wf s \<Longrightarrow> \<forall>x\<in>set outs. quiet_action x \<Longrightarrow> quietly s (emit outs s)"
  by (intro quiet_run_step quiet_step.note_down) (simp_all add: wf_emit)

text \<open>
  \<open>lock_door\<close> after its output lines are driven: everything else it does is quiet.
\<close>

lemma lock_door_ok:
  assumes w: "wf s" and i: "i < length (doors s)" and lm_def: "lm = lock_mask m (door_at s i)"
  shows "returns (lock_door rsig i m s) (\<lambda>(r, t). r = lm \<and>
     (if lm = 0 then t = s
      else quietly (emit (gpio_actions DO_LOCK lm) s) t \<and> agree (locked_state i lm s) t))"
proof -
  let ?d = "door_at s i" and ?s = "emit (gpio_actions DO_LOCK lm) s"
  have d: "wf_door (length (doors s)) i ?d" using w i by (rule wf_sysD)
  have sm: "shifted_mask (m AND maskFull ?d AND NOT (admDisableMask ?d)) (maskOffset ?d) = Inr lm"
    using wf_doorD(1) [OF d] by (simp add: shifted_mask_def lm_def lock_mask_def)
  show ?thesis
  proof (cases "lm = 0")
    case True
    then show ?thesis by (simp add: lock_door_def sm)
  next
    case False
    let ?ev = "[Event (EVENT_DOOR_LOCK (doorName ?d) lm)]"
    have "wf ?s" using w by (rule wf_emit)
    then obtain t where t: "airLockOnPartner rsig i 0 ?s = Inr t" "quietly ?s t" "agree (release_partner i ?s) t"
      using airLock_release_ok [of ?s i] i by (auto simp: returns_iff)
    have name: "doorName (door_at t i) = doorName ?d"
      using wf_sys_partner [OF w i] by (auto simp: agree_door_at [OF t(3)] release_partner_def i split: option.splits)
    have q: "quietly t (emit ?ev t)"
      using quiet_run_wf [OF t(2)] by (rule wf_quiet_emit) (simp add: quiet_action_def)
    then obtain v where v: "door_signal rsig i SIGNAL_DOOR_LOCK (emit ?ev t) = Inr v"
        "quietly (emit ?ev t) v" "agree (emit ?ev t) v"
      using door_signal_ok [OF quiet_run_wf [OF q]] by (auto simp: returns_iff)
    have "agree (locked_state i lm s) (emit ?ev t)"
      using t(3) by (simp add: agree_def locked_state_def)
    moreover have "lock_door rsig i m s = cbind (door_signal rsig i SIGNAL_DOOR_LOCK (emit ?ev t)) (\<lambda>s. Inr (lm, s))"
      using False t(1) by (simp add: lock_door_def sm gpio_actions_def Let_def name)
    ultimately show ?thesis
      using False v t(2) q by (auto intro: quiet_run_trans agree_trans)
  qed
qed


lemma returns_quiet:
  assumes "returns r (\<lambda>t. quietly s t)"
    and "\<And>t. wf t \<Longrightarrow> length (doors t) = length (doors s) \<Longrightarrow> returns (k t) (\<lambda>u. quietly t u)"
  shows "returns (cbind r k) (\<lambda>u. quietly s u)"
  using returns_then [of r s "\<lambda>_. True" k "\<lambda>u. u" "\<lambda>_. True"] assms by simp

lemma quietly_first:
  "quietly s t \<Longrightarrow> returns r (\<lambda>u. quietly t u) \<Longrightarrow> returns r (\<lambda>u. quietly s u)"
  by (auto elim!: returns_mono intro: quiet_run_trans)

lemma door_event_ok:
  "wf s \<Longrightarrow> (\<And>n. quiet_action (Event (ev n))) \<Longrightarrow> quietly s (door_event ev i s)"
  by (simp add: door_event_def wf_quiet_emit)

lemma wf_quiet_upd:
  assumes "wf s" and "quiet_step False s (upd_door i f s)" and "wf_door (length (doors s)) i (f (door_at s i))"
    and "\<And>sd. dr_reader (get_dr sd (f (door_at s i))) = dr_reader (get_dr sd (door_at s i))"
  shows "quietly s (upd_door i f s)"
  using assms by (intro quiet_run_step wf_upd_door) simp_all

lemma airLock_quiet:
  assumes "wf s" and "i < length (doors s)" and "quietly s t"
  shows "returns (airLockOnPartner rsig i (NOT 0) t) (quietly s)" "returns (airLockOnPartner rsig i 0 t) (quietly s)"
proof -
  have "wf t" "i < length (doors t)" using assms by (simp_all add: quiet_run_wf quiet_run_length)
  then show "returns (airLockOnPartner rsig i (NOT 0) t) (quietly s)" "returns (airLockOnPartner rsig i 0 t) (quietly s)"
    using airLock_block_ok [of t i] airLock_release_ok [of t i] assms(3)
    by (auto elim!: returns_mono intro: quiet_run_trans)
qed

lemma unlock_quiet:
  assumes "wf s" and "i < length (doors s)" and "quietly s t"
  shows "returns (unlock_door rsig i m t) (\<lambda>ru. quietly s (snd ru))"
proof -
  have "wf t" "i < length (doors t)" using assms by (simp_all add: quiet_run_wf quiet_run_length)
  then show ?thesis
    using unlock_door_ok [of t i _ m] assms(3) by (auto elim!: returns_mono intro: quiet_run_trans)
qed

lemma process_diff_ok:
  assumes w: "wf s" and i: "i < length (doors s)"
  shows "returns (process_diff rsig i inp diff s) (quietly s)"
  unfolding process_diff_def
proof (rule returns_quiet, goal_cases)
  case 1
  show ?case
    using unlock_quiet [OF w i door_event_ok [OF w, of EVENT_MANUAL_OPEN i], of 1] w
    by (auto simp: quiet_action_def case_prod_beta)
next
  case (2 t)
  then have lt: "i < length (doors t)" using i by simp
  show ?case
  proof (rule returns_quiet, goal_cases)
    case 1
    show ?case
      using airLock_quiet [OF \<open>wf t\<close> lt door_event_ok [OF \<open>wf t\<close>]] 2(1) door_event_ok [OF 2(1), of _ i]
      by (simp add: quiet_action_def)
  next
    case (2 u)
    then have lu: "i < length (doors u)" using lt by simp
    show ?case
    proof (rule returns_quiet, goal_cases)
      case 1
      show ?case
        using airLock_quiet [OF 2(1) lu door_event_ok [OF 2(1)]] 2(1)
        by (simp add: quiet_action_def)
    next
      case (2 v)
      then have lv: "i < length (doors v)" using lu by simp
      have e: "quietly v (if diff AND DI_IS_DOOR_LOCK \<noteq> 0
              then if inp AND DI_IS_DOOR_LOCK \<noteq> 0
                   then door_event EVENT_DOOR_IS_LOCK i v
                   else door_event EVENT_DOOR_IS_UNLOCK i v
              else v)" (is "quietly v ?v")
        using door_event_ok [OF 2(1), of _ i] 2(1) by (simp add: quiet_action_def)
      have "quietly ?v (upd_door i (\<lambda>d. d\<lparr>lastInput := inp\<rparr>) ?v)"
        using quiet_run_length [OF e] lv wf_sysD [OF quiet_run_wf [OF e]]
        by (intro wf_quiet_upd quiet_step.inputs quiet_run_wf [OF e]) (simp_all only: wf_door_frames get_dr_upd)
      then show ?case using e by (simp only: Let_def returns_simps) (rule quiet_run_trans)
    qed
  qed
qed

lemma check_door_ok:
  assumes w: "wf s" and i: "i < length (doors s)"
  shows "returns (check_door rsig i inp s) (quietly s)"
  unfolding check_door_def Let_def
proof (rule returns_quiet, goal_cases)
  case 1
  show ?case using process_diff_ok [OF w i] w by simp
next
  case (2 t)
  then have lt: "i < length (doors t)" using i by simp
  obtain tm send where st: "alarm_step (alarm_of inp) (alarm_timers (door_at t i)) = (tm, send)" by fastforce
  have "0 \<le> tm \<and> tm \<le> ALARM_RESEND_TIMER"
    using alarm_step_range [of "alarm_timers (door_at t i)" "alarm_of inp"] wf_doorD(4) [OF wf_sysD [OF 2(1) lt]] st by simp
  define u where "u = (if send then emit [Event (EVENT_DOOR_OPEN_ALARM (doorName (door_at t i)) (alarm_of inp))] t else t)"
  have e: "quietly t u"
    using 2(1) wf_quiet_emit [OF 2(1)] by (simp add: u_def quiet_action_def)
  have "quietly u (upd_door i (\<lambda>d. d\<lparr>alarm_timers := tm\<rparr>) u)"
    using quiet_run_length [OF e] lt wf_sysD [OF quiet_run_wf [OF e]] \<open>0 \<le> tm \<and> tm \<le> ALARM_RESEND_TIMER\<close>
    by (intro wf_quiet_upd quiet_step.alarm wf_door_frames(4) quiet_run_wf [OF e]) simp_all
  then show ?case using e by (simp add: st u_def [symmetric]) (rule quiet_run_trans)
qed

lemma check_inputs_ok:
  assumes w: "wf s"
  shows "returns (check_inputs rsig rd s) (quietly s)"
proof -
  have n: "length (doors s) \<le> 2" using w by (simp add: wf_sys_def)
  let ?in = "map (\<lambda>i. Some (input_byte (inputsValues rd) i)) [0..<length (doors s)]"
  have "returns (cfold (\<lambda>i s. cbind (fetch_init ?in i) (\<lambda>inp. check_door rsig i inp s)) [0..<length (doors s)] s) (quietly s)"
  proof (rule returns_cfold)
    fix i t assume i: "i \<in> set [0..<length (doors s)]" and t: "quietly s t"
    then have "returns (check_door rsig i (input_byte (inputsValues rd) i) t) (quietly t)"
      using quiet_run_wf [OF t] quiet_run_length [OF t] by (intro check_door_ok) simp_all
    then show "returns (cbind (fetch_init ?in i) (\<lambda>inp. check_door rsig i inp t)) (quietly s)"
      using i quietly_first [OF t] by (simp add: fetch_init_def fetch_def)
  qed (use w in simp)
  then show ?thesis
    using n by (simp add: check_inputs_def get_input_state_all Let_def)
qed

end

end
