(* ===== verification/Door_Cycle.thy ===== *)
theory Door_Cycle
  imports Door_Steps
begin

text \<open>
  Reader data and the main loop: what no operation changes, the invariant on the credentials,
  the contract of a reader driver as a locale, and the proof inside it that \<open>process_user_info\<close>,
  the timers, the polling of the readers and one cycle of \<open>mainLoop\<close> return without undefined
  behaviour, keep the invariants, and decompose into timer steps and quiet steps.
\<close>


lemma emit_Nil [simp]: "emit [] s = s"
  by (simp add: emit_def)

lemma gpio_actions_0 [simp]: "gpio_actions op 0 = []"
  by (simp add: gpio_actions_def)

subsection \<open>What never changes\<close>

definition static_door :: "door \<Rightarrow> string \<times> u8 \<times> u32 \<times> u32 \<times> nat option \<times> (nat option \<times> u8) \<times> (nat option \<times> u8)" where
  "static_door d = (doorName d, maskOffset d, maskFull d, admDisableMask d, airLockPartnerLocal d,
     (dr_reader (readerA d), accessMode (readerA d)), (dr_reader (readerB d), accessMode (readerB d)))"

definition static_sys :: "'r sys \<Rightarrow> (string \<times> u8 \<times> u32 \<times> u32 \<times> nat option \<times> (nat option \<times> u8) \<times> (nat option \<times> u8)) list" where
  "static_sys s = map static_door (doors s)"

lemma static_upd_door:
  "i < length (doors s) \<Longrightarrow> static_door (f (door_at s i)) = static_door (door_at s i) \<Longrightarrow>
     static_sys (upd_door i f s) = static_sys s"
  by (simp add: static_sys_def upd_door_def door_at_def map_update list_update_same_conv)

lemma static_frames [simp]:
  "static_sys (emit outs s) = static_sys s" "static_sys (upd_reader h r s) = static_sys s"
  by (simp_all add: static_sys_def)

lemma static_set_dr:
  "dr_reader r = dr_reader (get_dr sd d) \<Longrightarrow> accessMode r = accessMode (get_dr sd d) \<Longrightarrow>
     static_door (set_dr sd r d) = static_door d"
  by (cases sd) (simp_all add: static_door_def)

lemma quiet_step_static: "quiet_step b s t \<Longrightarrow> static_sys t = static_sys s"
proof (induction rule: quiet_step.induct)
  case (reader_data i s f sd)
  then show ?case unfolding upd_dr_def by (intro static_upd_door static_set_dr) simp_all
qed (simp_all add: static_upd_door static_door_def)

lemma timer_step_static: "timer_step i s t \<Longrightarrow> static_sys t = static_sys s"
  by (induction rule: timer_step.induct) (simp_all add: static_upd_door static_door_def)

lemma quiet_run_static: "quiet_run b ok ow s t \<Longrightarrow> static_sys t = static_sys s"
proof -
  have "(quiet_step b)\<^sup>*\<^sup>* s t \<Longrightarrow> static_sys t = static_sys s"
    by (induction rule: rtranclp_induct) (auto dest: quiet_step_static)
  then show "quiet_run b ok ow s t \<Longrightarrow> static_sys t = static_sys s"
    by (simp add: quiet_run_def)
qed

lemma static_sysD:
  "static_sys t = static_sys s \<Longrightarrow> length (doors t) = length (doors s)"
  "static_sys t = static_sys s \<Longrightarrow> i < length (doors s) \<Longrightarrow> static_door (door_at t i) = static_door (door_at s i)"
proof -
  assume a: "static_sys t = static_sys s"
  then show l: "length (doors t) = length (doors s)"
    by (metis length_map static_sys_def)
  assume "i < length (doors s)"
  with a l show "static_door (door_at t i) = static_door (door_at s i)"
    by (metis door_at_def nth_map static_sys_def)
qed

text \<open>Without credential changes the reader data of a door stay as they are.\<close>

lemma quiet_step_readers:
  "quiet_step b s t \<Longrightarrow> \<not> b \<Longrightarrow> i < length (doors s) \<Longrightarrow> get_dr sd (door_at t i) = get_dr sd (door_at s i)"
  by (induction rule: quiet_step.induct) simp_all

lemma quiet_run_readers:
  assumes "quiet_run False ok ow s t" and "i < length (doors s)"
  shows "get_dr sd (door_at t i) = get_dr sd (door_at s i)"
proof -
  have "(quiet_step False)\<^sup>*\<^sup>* s t \<Longrightarrow> length (doors t) = length (doors s) \<and> get_dr sd (door_at t i) = get_dr sd (door_at s i)"
  proof (induction rule: rtranclp_induct)
    case (step t u)
    then show ?case
      using quiet_step_readers [of False t u i sd] static_sysD(1) [OF quiet_step_static [of False t u]] assms(2) by simp
  qed simp
  then show ?thesis using assms(1) by (simp add: quiet_run_def)
qed

text \<open>The invariant on the credentials.\<close>

definition creds_sys :: "'r sys \<Rightarrow> bool" where
  "creds_sys s \<longleftrightarrow> (\<forall>i < length (doors s). \<forall>sd. creds_ok (get_dr sd (door_at s i)))"

lemma creds_quiet: "quiet_run False ok ow s t \<Longrightarrow> creds_sys s \<Longrightarrow> creds_sys t"
  by (simp add: creds_sys_def quiet_run_readers quiet_run_length)

lemma creds_frames [simp]:
  "creds_sys (emit outs s) = creds_sys s" "creds_sys (upd_reader h r s) = creds_sys s"
  by (simp_all add: creds_sys_def)

text \<open>The database answers every statement about a door with rows that can be read.\<close>

definition db_ok :: "auth_db \<Rightarrow> string \<Rightarrow> bool" where
  "db_ok db name \<longleftrightarrow> (\<forall>sql. \<forall>mode\<in>db_modes. \<forall>row\<in>set (step_rows db sql). row_ok mode name row)"

definition db_sys_ok :: "auth_db \<Rightarrow> 'r sys \<Rightarrow> bool" where
  "db_sys_ok db s \<longleftrightarrow> (\<forall>i < length (doors s). db_ok db (doorName (door_at s i)))"

lemma db_sys_ok_static: "static_sys t = static_sys s \<Longrightarrow> db_sys_ok db t = db_sys_ok db s"
  using static_sysD [of t s] by (auto simp: db_sys_ok_def static_door_def)

subsection \<open>Storing data and deciding\<close>

lemma wf_dr_reset: "wf_dr dr \<Longrightarrow> wf_dr (resetDoorAuth dr)"
  by (simp add: wf_dr_def resetDoorAuth_def TWO_FACTOR_TIME_def)

lemma store_data_ok:
  assumes "wf_dr dr" and "card2Len dr = 0"
  shows "returns (store_data data ty md dr) (\<lambda>(dr', err). wf_dr dr' \<and>
    dr_reader dr' = dr_reader dr \<and> accessMode dr' = accessMode dr \<and>
    (err \<noteq> None \<longrightarrow> dr' = resetDoorAuth dr) \<and>
    (card2Len dr' = 0 \<or> accessMode dr' = MODE_TWO_CARDS \<and> cardLen dr' \<noteq> 0))"
proof (cases md)
  case DATA_OK
  then show ?thesis
    using assms by (cases ty) (simp_all add: store_data_def Let_def wf_dr_def resetDoorAuth_def MAX_PIN_LEN_def
        MAX_CARD_LEN_def memcpy_def store_def TWO_FACTOR_TIME_def)
qed (use assms wf_dr_reset [OF assms(1)] in \<open>simp_all add: store_data_def resetDoorAuth_def\<close>)

definition switch_post :: "door_reader \<Rightarrow> door_reader \<times> u32 \<times> event list \<times> bool \<Rightarrow> bool" where
  "switch_post dr r \<longleftrightarrow> (case r of (dr', m, evs, ask) \<Rightarrow> wf_dr dr' \<and>
     dr_reader dr' = dr_reader dr \<and> accessMode dr' = accessMode dr \<and> card2Len dr' = 0 \<and>
     (\<forall>ev\<in>set evs. event_type ev < 4))"

lemma auth_switch_ok:
  assumes w: "wf_dr dr" and db: "db_ok db name" and reader: "dr_reader dr \<noteq> None"
    and c2: "card2Len dr = 0 \<or> accessMode dr = MODE_TWO_CARDS \<and> cardLen dr \<noteq> 0"
  shows "returns (auth_switch dr name db) (switch_post dr)"
proof -
  have lens: "pinLen dr \<le> length (dr_pin dr)" "cardLen dr \<le> length (dr_card dr)" "card2Len dr \<le> length (dr_card2 dr)"
    "pinLen dr < 2 ^ 64"
    using w by (simp_all add: wf_dr_def)
  have acc: "returns (cbind (getAccessMask dr mode name db) k) Q"
    if "mode \<in> db_modes" "mode \<noteq> MODE_PIN \<Longrightarrow> cardLen dr \<noteq> 0"
      and "\<And>m evs. \<forall>ev\<in>set evs. event_type ev < 4 \<Longrightarrow> returns (k (m, evs)) Q"
    for mode k and Q :: "'z \<Rightarrow> bool"
  proof -
    have "returns (getAccessMask dr mode name db) (\<lambda>(m, evs). \<forall>ev\<in>set evs. event_type ev < 4)"
      unfolding getAccessMask_def using lens that(1,2) db by (intro getAccessMask2_returns) (auto simp: db_ok_def)
    then show ?thesis using that(3) by (auto elim: returns_mono)
  qed
  have key: "returns (cbind (checkKeyAccess dr db) k) Q"
    if "cardLen dr \<noteq> 0" "card2Len dr \<noteq> 0"
      and "\<And>m evs. \<forall>ev\<in>set evs. event_type ev < 4 \<Longrightarrow> returns (k (m, evs)) Q"
    for k and Q :: "'z \<Rightarrow> bool"
  proof -
    have "returns (checkKeyAccess dr db) (\<lambda>(m, evs). \<forall>ev\<in>set evs. event_type ev < 4)"
      unfolding checkKeyAccess_def using lens that by (intro checkKeyAccess2_returns) simp_all
    then show ?thesis using that(3) by (auto elim: returns_mono)
  qed
  have t: "wf_dr (dr\<lparr>tf_timer := 0\<rparr>)" "wf_dr (dr\<lparr>tf_timer := TWO_FACTOR_TIME\<rparr>)" "wf_dr (dr\<lparr>tf_timer := 0, card2Len := 0\<rparr>)"
    using w reader by (simp_all add: wf_dr_def TWO_FACTOR_TIME_def)
  have c0: "accessMode dr \<noteq> MODE_TWO_CARDS \<Longrightarrow> card2Len dr = 0" "cardLen dr = 0 \<or> card2Len dr = 0 \<Longrightarrow> card2Len dr = 0"
    using c2 by auto
  have two: "switch_post dr (start_two_factor dr evs)"
    if "\<forall>ev\<in>set evs. event_type ev < 4" "card2Len dr = 0" for evs
    using that t w by (simp add: start_two_factor_def switch_post_def)
  have post: "switch_post dr (dr, m, evs, False)" "switch_post dr (dr\<lparr>tf_timer := 0\<rparr>, m, evs, False)"
    if "\<forall>ev\<in>set evs. event_type ev < 4" "card2Len dr = 0" for m evs
    using that t w by (simp_all add: switch_post_def)
  have post2: "switch_post dr (dr\<lparr>tf_timer := 0, card2Len := 0\<rparr>, m, evs, False)"
    if "\<forall>ev\<in>set evs. event_type ev < 4" for m evs
    using that t by (simp add: switch_post_def)
  show ?thesis
    unfolding auth_switch_def
    by (intro returns_if acc key) (use post post2 two c0 in \<open>auto simp: db_modes_def\<close>)
qed

definition creds_but :: "nat \<Rightarrow> side \<Rightarrow> 'r sys \<Rightarrow> bool" where
  "creds_but i sd s \<longleftrightarrow>
     (\<forall>j < length (doors s). \<forall>sd'. (j, sd') \<noteq> (i, sd) \<longrightarrow> creds_ok (get_dr sd' (door_at s j)))"

lemma creds_but_weaken: "creds_sys s \<Longrightarrow> creds_but i sd s"
  by (simp add: creds_but_def creds_sys_def)

lemma creds_but_quiet: "quiet_run False ok ow s t \<Longrightarrow> creds_but i sd s \<Longrightarrow> creds_but i sd t"
  by (simp add: creds_but_def quiet_run_readers quiet_run_length)

lemma creds_but_upd [simp]: "creds_but i sd (upd_dr i sd f s) = creds_but i sd s"
  by (auto simp: creds_but_def)

lemma creds_but_frames [simp]: "creds_but i sd (emit outs s) = creds_but i sd s"
  by (simp add: creds_but_def)

lemma creds_sys_upd:
  "i < length (doors s) \<Longrightarrow> creds_but i sd s \<Longrightarrow> creds_ok (f (get_dr sd (door_at s i))) \<Longrightarrow> creds_sys (upd_dr i sd f s)"
  by (auto simp: creds_but_def creds_sys_def)

lemma creds_sys_iff_but: "i < length (doors s) \<Longrightarrow> creds_but i sd s \<Longrightarrow> creds_sys s \<longleftrightarrow> creds_ok (get_dr sd (door_at s i))"
  unfolding creds_sys_def creds_but_def by (metis prod.inject)

lemma creds_ok_reset: "card2Len dr = 0 \<Longrightarrow> creds_ok (resetDoorAuth dr)"
  by (simp add: creds_ok_def resetDoorAuth_def)

context reader_signals begin

abbreviation run :: "'r sys \<Rightarrow> 'r sys \<Rightarrow> bool" where "run \<equiv> quiet_run True link_ok owner"

lemma upd_dr_run:
  assumes "wf s" and "i < length (doors s)" and "wf_dr (f (get_dr sd (door_at s i)))"
    and "dr_reader (f (get_dr sd (door_at s i))) = dr_reader (get_dr sd (door_at s i))"
    and "accessMode (f (get_dr sd (door_at s i))) = accessMode (get_dr sd (door_at s i))"
  shows "run s (upd_dr i sd f s)"
proof (rule quiet_run_step)
  show "quiet_step True s (upd_dr i sd f s)" using assms by (intro quiet_step.reader_data)
  show "wf (upd_dr i sd f s)"
    unfolding upd_dr_def using assms wf_sysD [OF assms(1,2)]
    by (intro wf_upd_door wf_door_set_dr) simp_all
qed simp

lemma call_signal_run:
  assumes "run s t" and "wf_dr r" and "creds_but i sd t" and "get_dr sd (door_at t i) = r"
  shows "returns (call_signal rsig sg h t) (\<lambda>u. run s u \<and> creds_but i sd u \<and> get_dr sd (door_at u i) = r)"
proof (rule returns_mono [OF call_signal_ok])
  show "wf t" using assms(1) by (rule quiet_run_wf)
  fix u assume u: "quietly t u \<and> agree t u"
  then have "run s u" using assms(1) by (auto intro: quiet_run_trans quiet_run_mono)
  then show "run s u \<and> creds_but i sd u \<and> get_dr sd (door_at u i) = r"
    using u assms by (auto simp: agree_door_at intro: creds_but_quiet)
qed

lemma upd_run:
  assumes "run s t" and "i < length (doors s)" and "creds_but i sd t" and "wf_dr (f (get_dr sd (door_at t i)))"
    and "dr_reader (f (get_dr sd (door_at t i))) = dr_reader (get_dr sd (door_at t i))"
    and "accessMode (f (get_dr sd (door_at t i))) = accessMode (get_dr sd (door_at t i))"
  shows "run s (upd_dr i sd f t) \<and> creds_but i sd (upd_dr i sd f t) \<and>
    get_dr sd (door_at (upd_dr i sd f t) i) = f (get_dr sd (door_at t i))"
proof -
  have l: "i < length (doors t)" using assms(1,2) by (simp add: quiet_run_length)
  have "run t (upd_dr i sd f t)" using assms l quiet_run_wf [OF assms(1)] by (intro upd_dr_run) simp_all
  then show ?thesis using assms l by (auto intro: quiet_run_trans)
qed

text \<open>The data a reader holds between two calls, and after \<open>store_data\<close> took some in.\<close>

lemma side_data:
  assumes "wf s" and "creds_sys s" and "i < length (doors s)" and "reader_side h (door_at s i) = Some sd"
  shows "wf_dr (get_dr sd (door_at s i))" "card2Len (get_dr sd (door_at s i)) = 0" "dr_reader (get_dr sd (door_at s i)) \<noteq> None"
  using wf_doorD(5) [OF wf_sysD [OF assms(1,3)]] assms(2-4)
  by (auto simp: creds_sys_def creds_ok_def reader_side_def split: if_splits)

text \<open>What remains to do when the switch over the access mode has set the mask.\<close>

definition finish_info :: "nat \<Rightarrow> nat \<Rightarrow> side \<Rightarrow> u32 \<Rightarrow> door_reader \<Rightarrow> 'r sys \<Rightarrow> 'r sys cres" where
  "finish_info h i sd m dr s =
     (if m \<noteq> 0 then cbind (unlock_door rsig i m s) (\<lambda>(_, s). Inr (upd_dr i sd resetDoorAuth s))
      else if tf_timer dr = 0 then cbind (authError rsig h s) (\<lambda>s. Inr (upd_dr i sd resetDoorAuth s))
      else Inr s)"

lemma info_accepted:
  assumes w: "wf s" and c: "creds_sys s" and i: "i < length (doors s)" and name: "name = doorName (door_at s i)"
    and db: "db_ok db name" and sd: "reader_side h (door_at s i) = Some sd"
    and st: "store_data data ty md (get_dr sd (door_at s i)) = Inr (dr, None)"
  obtains dr' m evs ask t where "auth_switch dr name db = Inr (dr', m, evs, ask)"
    and "process_user_info rsig db data ty md h i s = finish_info h i sd m dr' t"
    and "agree (upd_dr i sd (\<lambda>_. dr') (emit (map Event evs) s)) t" and "\<forall>ev\<in>set evs. event_type ev < 4"
    and "run s t" and "creds_but i sd t" and "wf_dr dr'" and "card2Len dr' = 0"
    and "ask \<Longrightarrow> rsig SIGNAL_PIN (readers s h) = Inr (readers t h)"
proof -
  let ?dr = "get_dr sd (door_at s i)" and ?s1 = "upd_dr i sd (\<lambda>_. dr) s"
  note own = side_data [OF w c i sd]
  have dr: "wf_dr dr" "dr_reader dr = dr_reader ?dr" "accessMode dr = accessMode ?dr"
    "card2Len dr = 0 \<or> accessMode dr = MODE_TWO_CARDS \<and> cardLen dr \<noteq> 0"
    using store_data_ok [OF own(1,2), of data ty md] st by (auto simp: returns_iff)
  obtain dr' m evs ask where sw: "auth_switch dr name db = Inr (dr', m, evs, ask)"
    and dr': "wf_dr dr'" "dr_reader dr' = dr_reader dr" "accessMode dr' = accessMode dr" "card2Len dr' = 0"
    and evs: "\<forall>ev\<in>set evs. event_type ev < 4"
    using auth_switch_ok [OF dr(1) db _ dr(4)] dr(2) own(3) by (auto simp: returns_iff switch_post_def)
  let ?s2 = "emit (map Event evs) ?s1"
  have s1: "run s ?s1" "creds_but i sd ?s1" "get_dr sd (door_at ?s1 i) = dr"
    using upd_run [of s s i sd "\<lambda>_. dr"] w i dr creds_but_weaken [OF c] by simp_all
  have "quiet_action (Event ev)" if "event_type ev < 4" for ev
    using that by (cases ev) (simp_all add: quiet_action_def)
  then have "quietly ?s1 ?s2" using evs by (intro wf_quiet_emit quiet_run_wf [OF s1(1)]) auto
  then have s2: "run s ?s2" "creds_but i sd ?s2" "get_dr sd (door_at ?s2 i) = dr"
    using s1 by (auto intro: quiet_run_trans quiet_run_mono)
  obtain u where u: "(if ask then call_signal rsig SIGNAL_PIN h ?s2 else Inr ?s2) = Inr u" "quietly ?s2 u" "agree ?s2 u"
    using call_signal_ok [OF quiet_run_wf [OF s2(1)], of SIGNAL_PIN h] quiet_run_wf [OF s2(1)] by (cases ask) (auto simp: returns_iff)
  have run: "run s u" using s2(1) u(2) by (auto intro: quiet_run_trans quiet_run_mono)
  have but: "creds_but i sd u" using creds_but_quiet [OF u(2) s2(2)] .
  have g: "get_dr sd (door_at u i) = dr" using s2(3) by (simp add: agree_door_at [OF u(3)])
  let ?t = "upd_dr i sd (\<lambda>_. dr') u"
  have "doors u = doors ?s1" "visible u = visible ?s2" using u(3) by (simp_all add: agree_def)
  moreover have "set_dr sd dr' (set_dr sd dr d) = set_dr sd dr' d" for d by (cases sd) simp_all
  ultimately have "agree (upd_dr i sd (\<lambda>_. dr') (emit (map Event evs) s)) ?t"
    using i by (simp add: agree_def) (simp add: upd_dr_def upd_door_def)
  moreover have "process_user_info rsig db data ty md h i s = finish_info h i sd m dr' ?t"
    using sw u(1) i by (simp add: process_user_info_def finish_info_def sd st name Let_def)
  moreover have "run s ?t" "creds_but i sd ?t"
    using upd_run [OF run i but, of "\<lambda>_. dr'"] g dr' by simp_all
  moreover have "rsig SIGNAL_PIN (readers s h) = Inr (readers ?t h)" if ask
    using u(1) that by (auto simp: call_signal_def cres_simps)
  ultimately show ?thesis using that sw evs dr' by blast
qed

lemma finish_info_ok:
  assumes t: "run s t" "creds_but i sd t" and i: "i < length (doors s)"
    and dr: "get_dr sd (door_at t i) = dr" "wf_dr dr" "card2Len dr = 0"
  shows "returns (finish_info h i sd m dr t) (\<lambda>u. run s u \<and> creds_sys u)"
proof -
  have w: "wf t" and l: "i < length (doors t)" using t(1) i by (auto simp: quiet_run_length intro: quiet_run_wf)
  have fin: "run s (upd_dr i sd resetDoorAuth u) \<and> creds_sys (upd_dr i sd resetDoorAuth u)" if q: "quietly t u" for u
  proof -
    have u: "run s u" "creds_but i sd u" "get_dr sd (door_at u i) = dr" "i < length (doors u)"
      using q t l dr(1) quiet_run_readers [OF q l, of sd] creds_but_quiet [OF q t(2)] quiet_run_length [OF q]
      by (auto intro: quiet_run_trans quiet_run_mono)
    have "run s (upd_dr i sd resetDoorAuth u)"
      using upd_run [OF u(1) i u(2), of resetDoorAuth] u(3) dr(2) wf_dr_reset by (simp add: resetDoorAuth_def)
    then show ?thesis using u dr(3) by (auto intro!: creds_sys_upd creds_ok_reset)
  qed
  show ?thesis
    unfolding finish_info_def
  proof (intro returns_if)
    show "returns (cbind (unlock_door rsig i m t) (\<lambda>(_, s). Inr (upd_dr i sd resetDoorAuth s))) (\<lambda>u. run s u \<and> creds_sys u)"
      using unlock_quiet [OF w l quiet_run_refl [OF w], of m] fin by (auto elim!: returns_mono)
    show "returns (cbind (authError rsig h t) (\<lambda>s. Inr (upd_dr i sd resetDoorAuth s))) (\<lambda>u. run s u \<and> creds_sys u)"
      using call_signal_ok [OF w, of SIGNAL_ERR_AUTH h] fin by (auto simp: authError_def elim!: returns_mono)
    show "returns (Inr t) (\<lambda>u. run s u \<and> creds_sys u)" if "tf_timer dr \<noteq> 0"
      using that t dr l by (simp add: creds_sys_iff_but creds_ok_def)
  qed
qed

lemma process_user_info_ok:
  assumes w: "wf s" and c: "creds_sys s" and i: "i < length (doors s)" and db: "db_ok db (doorName (door_at s i))"
  shows "returns (process_user_info rsig db data ty md h i s) (\<lambda>t. run s t \<and> creds_sys t)"
proof (cases "reader_side h (door_at s i)")
  case None
  then show ?thesis
    using call_signal_ok [OF w, of SIGNAL_ERR_COMM h] c
    by (auto simp: process_user_info_def invalidData_def elim!: returns_mono intro: quiet_run_mono creds_quiet)
next
  case (Some sd)
  let ?dr = "get_dr sd (door_at s i)"
  note own = side_data [OF w c i Some]
  obtain dr err where st: "store_data data ty md ?dr = Inr (dr, err)" and dr: "wf_dr dr"
    "dr_reader dr = dr_reader ?dr" "accessMode dr = accessMode ?dr" "err \<noteq> None \<longrightarrow> dr = resetDoorAuth ?dr"
    using store_data_ok [OF own(1,2), of data ty md] by (auto simp: returns_iff)
  show ?thesis
  proof (cases err)
    case None
    show ?thesis
    proof (rule info_accepted [OF w c i refl db Some st [unfolded None]])
      fix dr' m evs ask t
      assume a: "process_user_info rsig db data ty md h i s = finish_info h i sd m dr' t"
        "agree (upd_dr i sd (\<lambda>_. dr') (emit (map Event evs) s)) t" "run s t" "creds_but i sd t" "wf_dr dr'" "card2Len dr' = 0"
      then show ?thesis using i by (simp add: finish_info_ok agree_door_at)
    qed
  next
    case (Some e)
    let ?s1 = "upd_dr i sd (\<lambda>_. dr) s"
    have s1: "run s ?s1" "creds_sys ?s1"
      using upd_run [of s s i sd "\<lambda>_. dr"] w i c dr Some own(2)
      by (auto simp: creds_but_weaken creds_ok_reset intro: creds_sys_upd)
    then have "returns (call_signal rsig sg h ?s1) (\<lambda>t. run s t \<and> creds_sys t)" for sg
      using call_signal_ok [OF quiet_run_wf [OF s1(1)], of sg h]
      by (auto elim!: returns_mono intro: quiet_run_trans quiet_run_mono creds_quiet)
    then show ?thesis
      using \<open>reader_side h (door_at s i) = Some sd\<close> Some
      by (simp add: process_user_info_def st invalidData_def invalidUsage_def Let_def split: data_error.split)
  qed
qed

end

subsection \<open>One cycle of the main loop\<close>

text \<open>
  The shape of a cycle: for every door in order one step of its lock timer and quiet steps, then
  quiet steps for the inputs.
\<close>

inductive main_run :: "nat list \<Rightarrow> 'r sys \<Rightarrow> 'r sys \<Rightarrow> bool" where
  main_inputs: "(quiet_step True)\<^sup>*\<^sup>* s t \<Longrightarrow> main_run [] s t"
| main_door: "timer_step i s u \<Longrightarrow> (quiet_step True)\<^sup>*\<^sup>* u v \<Longrightarrow> main_run is v t \<Longrightarrow> main_run (i # is) s t"

inductive_cases main_run_NilE: "main_run [] s t"
inductive_cases main_run_ConsE: "main_run (i # is) s t"

text \<open>
  What the controller relies on of a reader driver: its functions work on the private data of
  their own reader only, keep its link usable and its owner, and reach the doors only through
  the callback, which gets the owner as \<open>readerUserData\<close>.
\<close>

locale reader_driver = reader_signals +
  fixes rclear :: "'a \<Rightarrow> 'a" and rget :: "'a get_op"
  assumes clear_ok: "link_ok r \<Longrightarrow> link_ok (rclear r) \<and> owner (rclear r) = owner r"
    and get_ok: "P s \<Longrightarrow> (\<And>t. P t \<Longrightarrow> \<forall>k. link_ok (readers t k)) \<Longrightarrow>
      (\<And>t r. P t \<Longrightarrow> link_ok r \<Longrightarrow> owner r = owner (readers t h) \<Longrightarrow> P (upd_reader h r t)) \<Longrightarrow>
      (\<And>data ty md t. P t \<Longrightarrow> returns (cb data ty md h (owner (readers t h)) t) P) \<Longrightarrow>
      returns (rget cb h tmo s) P"
begin

lemma two_factor_timer_ok:
  assumes w: "wf s" and c: "creds_sys s" and i: "i < length (doors s)"
  shows "returns (two_factor_timer rsig rclear i sd s) (\<lambda>t. run s t \<and> creds_sys t)"
proof (cases "tf_timer (get_dr sd (door_at s i)) > 0")
  case False
  then show ?thesis using w c by (simp add: two_factor_timer_def Let_def)
next
  case True
  let ?dr = "get_dr sd (door_at s i)" and ?t = "tf_timer (get_dr sd (door_at s i)) - 1"
  let ?s1 = "upd_dr i sd (\<lambda>dr. dr\<lparr>tf_timer := ?t\<rparr>) s"
  have dr: "wf_dr ?dr" "card2Len ?dr = 0" using wf_doorD(5) [OF wf_sysD [OF w i]] c i by (simp_all add: creds_sys_def creds_ok_def)
  then obtain h where h: "dr_reader ?dr = Some h" using True by (auto simp: wf_dr_def)
  have cb: "creds_but i sd s" using c by (rule creds_but_weaken)
  have s1: "run s ?s1 \<and> creds_but i sd ?s1 \<and> get_dr sd (door_at ?s1 i) = ?dr\<lparr>tf_timer := ?t\<rparr>"
    by (rule upd_run [OF _ i cb]) (use w dr True in \<open>simp_all add: wf_dr_def\<close>)
  have sig: "returns (call_signal rsig sg h u) (\<lambda>t. run s t \<and> creds_sys t)" if "run s u" "creds_sys u" for sg u
    using call_signal_ok [OF quiet_run_wf [OF that(1)], of sg h] that
    by (auto elim!: returns_mono intro: quiet_run_trans quiet_run_mono creds_quiet)
  show ?thesis
  proof (cases "?t \<le> 0")
    case True
    let ?s2 = "upd_dr i sd resetDoorAuth ?s1"
    have s2: "run s ?s2" "creds_sys ?s2"
      using upd_run [of s ?s1 i sd resetDoorAuth] s1 i dr wf_dr_reset [of "?dr\<lparr>tf_timer := ?t\<rparr>"] True \<open>tf_timer ?dr > 0\<close>
      by (auto simp: resetDoorAuth_def wf_dr_def creds_ok_def intro!: creds_sys_upd)
    let ?s3 = "upd_reader h (rclear (readers ?s2 h)) ?s2"
    have "link_ok (readers ?s2 h)" using quiet_run_wf [OF s2(1)] by (simp only: wf_sys_def)
    then have w3: "wf ?s3" using quiet_run_wf [OF s2(1)] clear_ok by (intro wf_upd_reader) auto
    have "run ?s2 ?s3" by (rule quiet_run_step [OF quiet_step.reader w3]) simp
    then have s3: "run s ?s3" "creds_sys ?s3" using s2 by (auto intro: quiet_run_trans)
    then show ?thesis
      using True \<open>tf_timer ?dr > 0\<close> h sig [OF s3] by (simp add: two_factor_timer_def Let_def invalidUsage_def)
  next
    case False
    then have "creds_sys ?s1" using i cb dr by (intro creds_sys_upd) (simp_all add: creds_ok_def)
    then show ?thesis
      using False \<open>tf_timer ?dr > 0\<close> h sig [of ?s1] s1 by (simp add: two_factor_timer_def Let_def)
  qed
qed

text \<open>A poll, and any further property \<open>R\<close> of the state that the controller's part of it keeps.\<close>

lemma poll_reader_keeps:
  assumes w: "wf s" and c: "creds_sys s" and i: "i < length (doors s)" and db: "db_sys_ok db s"
    and R: "R s" "\<And>h r t. R t \<Longrightarrow> R (upd_reader h r t)"
      "\<And>data ty md h t. R t \<Longrightarrow> unless_fault (process_user_info rsig db data ty md h i t) R"
  shows "returns (poll_reader rsig rget db i sd s) (\<lambda>t. (run s t \<and> creds_sys t) \<and> R t)"
proof (cases "dr_reader (get_dr sd (door_at s i))")
  case None
  then show ?thesis using w c R(1) by (simp add: poll_reader_def)
next
  case (Some h)
  define P where "P t \<longleftrightarrow> (run s t \<and> creds_sys t) \<and> R t" for t
  have own: "owner (readers t h) = i" if "P t" for t
  proof -
    have "static_door (door_at t i) = static_door (door_at s i)"
      using that quiet_run_static static_sysD(2) i unfolding P_def by blast
    then have "dr_reader (get_dr sd (door_at t i)) = Some h"
      using Some by (cases sd) (simp_all add: static_door_def)
    then show ?thesis
      using that i by (auto simp: P_def quiet_run_def wf_sys_def)
  qed
  have "returns (rget (process_user_info rsig db) h 0 s) P"
  proof (rule get_ok [where P = P])
    show "P s" using w c R(1) by (simp add: P_def)
    show "\<forall>k. link_ok (readers t k)" if "P t" for t
      using that by (auto simp: P_def quiet_run_def wf_sys_def)
    show "P (upd_reader h r t)" if "P t" "link_ok r" "owner r = owner (readers t h)" for t r
    proof -
      have "wf (upd_reader h r t)" using that quiet_run_wf by (intro wf_upd_reader) (auto simp: P_def)
      then have "run t (upd_reader h r t)" by (intro quiet_run_step quiet_step.reader) simp_all
      then show ?thesis using that(1) R(2) by (auto simp: P_def intro: quiet_run_trans)
    qed
    show "returns (process_user_info rsig db data ty md h (owner (readers t h)) t) P" if "P t" for data ty md t
    proof -
      have t: "wf t" "creds_sys t" "i < length (doors t)" "db_sys_ok db t"
        using that i db db_sys_ok_static [OF quiet_run_static, of True link_ok owner s t db]
        by (auto simp: P_def quiet_run_length intro: quiet_run_wf)
      then have "returns (process_user_info rsig db data ty md h i t) (\<lambda>u. (run t u \<and> creds_sys u) \<and> R u)"
        using R(3) that by (intro returns_unless process_user_info_ok) (simp_all add: db_sys_ok_def P_def)
      then show ?thesis
        using that own [OF that] by (auto simp: P_def elim!: returns_mono intro: quiet_run_trans)
    qed
  qed
  then show ?thesis using Some by (simp add: poll_reader_def P_def [abs_def])
qed

lemma poll_reader_ok:
  assumes w: "wf s" and c: "creds_sys s" and i: "i < length (doors s)" and db: "db_sys_ok db s"
  shows "returns (poll_reader rsig rget db i sd s) (\<lambda>t. run s t \<and> creds_sys t)"
  using poll_reader_keeps [OF assms, of "\<lambda>_. True"] by simp

lemma lock_timer_ok:
  assumes w: "wf s" and i: "i < length (doors s)"
  shows "returns (lock_timer rsig i s) (\<lambda>t. \<exists>u. timer_step i s u \<and> quietly u t)"
proof -
  let ?d = "door_at s i" and ?s1 = "upd_door i (\<lambda>d. d\<lparr>door_lock_timer := door_lock_timer d - 1\<rparr>) s"
  have d: "wf_door (length (doors s)) i ?d" using w i by (rule wf_sysD)
  consider "door_lock_timer ?d = 0" | "1 < door_lock_timer ?d" | "door_lock_timer ?d = 1"
    using wf_doorD(3) [OF d] by linarith
  then show ?thesis
  proof cases
    case 1
    then show ?thesis using timer_step.idle [OF i 1] w by (auto simp: lock_timer_def)
  next
    case 2
    then have w1: "wf ?s1"
      using w i d wf_doorD(3) [OF d] by (intro wf_upd_door wf_door_frames(3)) (auto simp: DOOR_OPEN_TIME_def)
    then show ?thesis
      using 2 timer_step.tick [OF i 2] i by (auto simp: lock_timer_def Let_def)
  next
    case 3
    have e: "?s1 = upd_door i (\<lambda>d. d\<lparr>door_lock_timer := 0\<rparr>) s"
      using i 3 by (simp add: upd_door_def door_at_def)
    have w1: "wf ?s1" unfolding e
      using w i d by (intro wf_upd_door wf_door_frames(3)) (auto simp: DOOR_OPEN_TIME_def)
    define lm where "lm = lock_mask (maskFull (door_at ?s1 i)) (door_at ?s1 i)"
    have lm: "lm = push_bit (unat (maskOffset ?d)) (maskFull ?d AND NOT (admDisableMask ?d))"
      using i by (simp add: lm_def lock_mask_def)
    let ?u = "emit (gpio_actions DO_LOCK lm) ?s1"
    have step: "timer_step i s ?u"
      using timer_step.expire [OF i refl 3 wf_doorD(1) [OF d] lm] by (simp only: e)
    have "returns (lock_door rsig i (maskFull (door_at ?s1 i)) ?s1) (\<lambda>rt. quietly ?u (snd rt))"
      using lock_door_ok [OF w1 _ lm_def] i wf_emit [OF w1, of "gpio_actions DO_LOCK lm"]
      by (auto elim!: returns_mono split: if_splits)
    then have "returns (lock_timer rsig i s) (quietly ?u)"
      using 3 i by (simp add: lock_timer_def Let_def case_prod_beta)
    then show ?thesis using step by (auto elim: returns_mono)
  qed
qed

lemma timer_step_creds: "timer_step i s u \<Longrightarrow> creds_sys s \<Longrightarrow> creds_sys u"
  by (induction rule: timer_step.induct) (auto simp: creds_sys_def)

text \<open>One door's part of the cycle.\<close>

lemma door_cycle_ok:
  assumes w: "wf s" and c: "creds_sys s" and i: "i < length (doors s)" and db: "db_sys_ok db s"
  shows "returns (door_cycle rsig rclear rget db i s)
    (\<lambda>t. wf t \<and> creds_sys t \<and> static_sys t = static_sys s \<and>
       (\<exists>u. timer_step i s u \<and> (quiet_step True)\<^sup>*\<^sup>* u t))"
proof -
  obtain t u where t: "lock_timer rsig i s = Inr t" "timer_step i s u" "quietly u t"
    using lock_timer_ok [OF w i] by (auto simp: returns_iff)
  have st: "static_sys u = static_sys s" using t(2) by (rule timer_step_static)
  define P where "P v \<longleftrightarrow> run u v \<and> creds_sys v" for v
  have P: "wf v" "creds_sys v" "i < length (doors v)" "db_sys_ok db v" if "P v" for v
  proof -
    have s: "static_sys v = static_sys s" using that st quiet_run_static unfolding P_def by metis
    then show "wf v" "creds_sys v" "i < length (doors v)" "db_sys_ok db v"
      using that i db static_sysD(1) [OF s] db_sys_ok_static [OF s] by (auto simp: P_def intro: quiet_run_wf)
  qed
  have ext: "returns r P" if "P v" "returns r (\<lambda>t. run v t \<and> creds_sys t)" for v r
    using that by (auto simp: P_def elim!: returns_mono intro: quiet_run_trans)
  have t0: "P t"
    using t creds_quiet [OF t(3) timer_step_creds [OF t(2) c]] by (auto simp: P_def intro: quiet_run_mono)
  have two: "returns (two_factor_timer rsig rclear i sd v) P" if "P v" for sd v
    using P [OF that] two_factor_timer_ok ext that by blast
  have poll: "returns (poll_reader rsig rget db i sd v) P" if "P v" for sd v
    using P [OF that] poll_reader_ok ext that by blast
  have "returns (door_cycle rsig rclear rget db i s) P"
    unfolding door_cycle_def t(1)
    by (simp, intro returns_mono [OF two [OF t0]] returns_mono [OF two] returns_mono [OF poll] poll)
  then show ?thesis
    using t(2) st quiet_run_static [of True link_ok owner u]
    by (auto simp: P_def elim!: returns_mono intro: quiet_run_wf simp flip: st) (auto simp: quiet_run_def)
qed

lemma mainLoop_ok:
  assumes w: "wf s" and c: "creds_sys s" and db: "db_sys_ok db s"
  shows "returns (mainLoop rsig rclear rget db rd s)
    (\<lambda>t. wf t \<and> creds_sys t \<and> static_sys t = static_sys s \<and> main_run [0..<length (doors s)] s t)"
proof -
  have "returns (cbind (cfold (door_cycle rsig rclear rget db) is s) (check_inputs rsig rd))
      (\<lambda>t. wf t \<and> creds_sys t \<and> static_sys t = static_sys s \<and> main_run is s t)"
    if "\<forall>i\<in>set is. i < length (doors s)" for "is"
    using w c db that
  proof (induction "is" arbitrary: s)
    case Nil
    then show ?case
      using check_inputs_ok [OF Nil(1), of rd] quiet_run_mono [of link_ok owner s _ True]
      by (auto elim!: returns_mono intro: creds_quiet quiet_run_static main_run.intros simp: quiet_run_def)
  next
    case (Cons i "is")
    obtain t u where t: "door_cycle rsig rclear rget db i s = Inr t" "wf t" "creds_sys t" "static_sys t = static_sys s"
      "timer_step i s u" "(quiet_step True)\<^sup>*\<^sup>* u t"
      using door_cycle_ok [of s i db] Cons.prems by (auto simp: returns_iff)
    then show ?case
      using Cons.IH [of t] Cons.prems static_sysD(1) [OF t(4)] db_sys_ok_static [OF t(4)]
      by (auto elim!: returns_mono intro: main_run.intros)
  qed
  from this [of "[0..<length (doors s)]"] show ?thesis
    by (simp add: mainLoop_def)
qed

end

end
