(* ===== verification/Door_Safety.thy ===== *)
theory Door_Safety
  imports Door_Cycle
begin

text \<open>
  Safety of the step machine, by induction over its steps: the airlock invariant (two partnered
  doors are never unlocked at once, seen at the output lines) and the lock timer (every cycle
  counts it down unless the door is unlocked again).
\<close>


subsection \<open>Output lines in the history\<close>

fun line_level :: "action list \<Rightarrow> nat \<Rightarrow> nat option" where
  "line_level [] l = None"
| "line_level (x # tr) l =
     (case x of Gpio k v \<Rightarrow> if k = l then Some v else line_level tr l | _ \<Rightarrow> line_level tr l)"

definition mask_lines :: "u32 \<Rightarrow> nat list" where
  "mask_lines m = map (\<lambda>k. outputs ! k) (filter (bit m) [0..<4])"

definition door_lines :: "door \<Rightarrow> nat list" where
  "door_lines d = mask_lines (push_bit (unat (maskOffset d)) (maskFull d))"

text \<open>A door is open in a history when one of its lines was last driven to level 0.\<close>

definition door_open :: "action list \<Rightarrow> door \<Rightarrow> bool" where
  "door_open tr d \<longleftrightarrow> (\<exists>l\<in>set (door_lines d). line_level tr l = Some 0)"

fun always :: "('a list \<Rightarrow> bool) \<Rightarrow> 'a list \<Rightarrow> bool" where
  "always P [] = P []"
| "always P (x # xs) = (P (x # xs) \<and> always P xs)"

lemma always_now: "always P xs \<Longrightarrow> P xs"
  by (cases xs) simp_all

lemma always_mono: "always P xs \<Longrightarrow> (\<And>ys. P ys \<Longrightarrow> Q ys) \<Longrightarrow> always Q xs"
  by (induction xs) auto

lemma always_append:
  "always P ys \<Longrightarrow> (\<And>zs. set zs \<subseteq> set xs \<Longrightarrow> P (zs @ ys)) \<Longrightarrow> always P (xs @ ys)"
proof (induction xs)
  case (Cons x xs)
  have "P (x # xs @ ys)" using Cons.prems(2) [of "x # xs"] by simp
  moreover have "always P (xs @ ys)" using Cons.prems by (intro Cons.IH) auto
  ultimately show ?case by simp
qed simp

lemma line_level_append:
  "(\<And>v. Gpio l v \<notin> set xs) \<Longrightarrow> line_level (xs @ tr) l = line_level tr l"
proof (induction xs)
  case (Cons x xs)
  have "line_level (xs @ tr) l = line_level tr l" using Cons.prems by (intro Cons.IH) simp
  then show ?case using Cons.prems by (cases x) auto
qed simp

lemma line_level_locked:
  "(\<And>v. Gpio l v \<in> set xs \<Longrightarrow> v = 1) \<Longrightarrow> line_level (xs @ tr) l = Some 0 \<Longrightarrow> line_level tr l = Some 0"
proof (induction xs)
  case (Cons x xs)
  have IH: "line_level (xs @ tr) l = Some 0 \<Longrightarrow> line_level tr l = Some 0" using Cons.prems(1) by (intro Cons.IH) simp_all
  show ?case
  proof (cases x)
    case (Gpio k v)
    have "k = l \<Longrightarrow> v = 1" using Cons.prems(1) [of v] Gpio by simp
    then show ?thesis using Gpio Cons.prems(2) IH by (cases "k = l") simp_all
  qed (use Cons.prems(2) IH in simp_all)
qed simp

lemma line_level_driven:
  "(\<And>v. Gpio l v \<in> set xs \<Longrightarrow> v = w) \<Longrightarrow> Gpio l w \<in> set xs \<Longrightarrow> line_level (xs @ tr) l = Some w"
proof (induction xs)
  case (Cons x xs)
  have IH: "Gpio l w \<in> set xs \<Longrightarrow> line_level (xs @ tr) l = Some w" using Cons.prems(1) by (intro Cons.IH) simp_all
  show ?case
  proof (cases x)
    case (Gpio k v)
    have "k = l \<Longrightarrow> v = w" using Cons.prems(1) [of v] Gpio by simp
    then show ?thesis using Gpio Cons.prems(2) IH by (cases "k = l") simp_all
  qed (use Cons.prems(2) IH in simp_all)
qed simp

lemma set_gpio_actions:
  "Gpio l v \<in> set (gpio_actions op m) \<longleftrightarrow> l \<in> set (mask_lines m) \<and> v = (if op = DO_UNLOCK then 0 else 1)"
proof -
  have "Gpio l v \<in> set (gpio_actions op m) \<longleftrightarrow> (l, v) \<in> set (set_door_state op m)"
    by (auto simp: gpio_actions_def)
  also have "\<dots> \<longleftrightarrow> l \<in> set (mask_lines m) \<and> v = (if op = DO_UNLOCK then 0 else 1)"
    unfolding set_door_state_set mask_lines_def by auto
  finally show ?thesis .
qed

lemma gpio_actions_only: "Event e \<notin> set (gpio_actions op m)"
  by (auto simp: gpio_actions_def)

lemma mask_lines_mono: "(\<And>k. bit m k \<Longrightarrow> bit m' k) \<Longrightarrow> set (mask_lines m) \<subseteq> set (mask_lines m')"
  by (auto simp: mask_lines_def)

lemma door_open_append:
  "(\<And>l v. l \<in> set (door_lines d) \<Longrightarrow> Gpio l v \<notin> set xs) \<Longrightarrow> door_open (xs @ tr) d = door_open tr d"
  by (simp add: door_open_def line_level_append)

lemma door_open_locked:
  "(\<And>l v. Gpio l v \<in> set xs \<Longrightarrow> v = 1) \<Longrightarrow> door_open (xs @ tr) d \<Longrightarrow> door_open tr d"
  unfolding door_open_def using line_level_locked by blast

lemma door_lines_static: "static_door d = static_door d' \<Longrightarrow> door_lines d = door_lines d'"
  by (simp add: static_door_def door_lines_def)

subsection \<open>The airlock invariant\<close>

text \<open>
  Partners are mutual, doors have disjoint output lines, and no door is administratively
  disabled.
\<close>

definition airlock_config :: "'r sys \<Rightarrow> bool" where
  "airlock_config s \<longleftrightarrow>
     (\<forall>i < length (doors s). admDisableMask (door_at s i) = 0 \<and>
        (\<forall>j. airLockPartnerLocal (door_at s i) = Some j \<longrightarrow>
           j < length (doors s) \<and> j \<noteq> i \<and> airLockPartnerLocal (door_at s j) = Some i) \<and>
        (\<forall>j < length (doors s). j \<noteq> i \<longrightarrow> set (door_lines (door_at s i)) \<inter> set (door_lines (door_at s j)) = {}))"

definition no_pair_open :: "'r sys \<Rightarrow> action list \<Rightarrow> bool" where
  "no_pair_open s tr \<longleftrightarrow>
     (\<forall>i < length (doors s). \<forall>j < length (doors s). airLockPartnerLocal (door_at s i) = Some j \<longrightarrow>
        \<not> (door_open tr (door_at s i) \<and> door_open tr (door_at s j)))"

definition open_guarded :: "'r sys \<Rightarrow> bool" where
  "open_guarded s \<longleftrightarrow>
     (\<forall>i < length (doors s). door_open (trace s) (door_at s i) \<longrightarrow>
        0 < door_lock_timer (door_at s i) \<and>
        (\<forall>j. airLockPartnerLocal (door_at s i) = Some j \<longrightarrow>
           airLockMask (door_at s j) = maskFull (door_at s j)))"

definition airlock_inv :: "'r sys \<Rightarrow> bool" where
  "airlock_inv s \<longleftrightarrow> airlock_config s \<and> open_guarded s \<and> always (no_pair_open s) (trace s)"

lemma airlock_config_static:
  assumes "static_sys t = static_sys s"
  shows "airlock_config t = airlock_config s" "no_pair_open t = no_pair_open s"
proof -
  note l = static_sysD(1) [OF assms] and d = static_sysD(2) [OF assms]
  have f: "airLockPartnerLocal (door_at t i) = airLockPartnerLocal (door_at s i)"
    "admDisableMask (door_at t i) = admDisableMask (door_at s i)"
    "door_lines (door_at t i) = door_lines (door_at s i)" if "i < length (doors s)" for i
    using d [OF that] by (simp_all add: static_door_def door_lines_def)
  show "airlock_config t = airlock_config s"
    unfolding airlock_config_def l
  proof (intro arg_cong [where f = All] ext imp_cong refl)
    fix i assume i: "i < length (doors s)"
    show "(admDisableMask (door_at t i) = 0 \<and>
        (\<forall>j. airLockPartnerLocal (door_at t i) = Some j \<longrightarrow>
           j < length (doors s) \<and> j \<noteq> i \<and> airLockPartnerLocal (door_at t j) = Some i) \<and>
        (\<forall>j < length (doors s). j \<noteq> i \<longrightarrow> set (door_lines (door_at t i)) \<inter> set (door_lines (door_at t j)) = {})) \<longleftrightarrow>
      (admDisableMask (door_at s i) = 0 \<and>
        (\<forall>j. airLockPartnerLocal (door_at s i) = Some j \<longrightarrow>
           j < length (doors s) \<and> j \<noteq> i \<and> airLockPartnerLocal (door_at s j) = Some i) \<and>
        (\<forall>j < length (doors s). j \<noteq> i \<longrightarrow> set (door_lines (door_at s i)) \<inter> set (door_lines (door_at s j)) = {}))"
      using f(1,3) by (auto simp: f [OF i])
  qed
  have o: "door_open tr (door_at t i) = door_open tr (door_at s i)" if "i < length (doors s)" for tr i
    using f(3) [OF that] by (simp add: door_open_def)
  show "no_pair_open t = no_pair_open s"
    by (rule ext) (auto simp: no_pair_open_def l f(1) o)
qed

lemma airlock_invI:
  assumes "airlock_inv s" and "static_sys t = static_sys s" and "trace t = xs @ trace s"
    and "\<And>zs. set zs \<subseteq> set xs \<Longrightarrow> no_pair_open s (zs @ trace s)" and "open_guarded t"
  shows "airlock_inv t"
  using assms by (auto simp: airlock_inv_def airlock_config_static [OF assms(2)] intro: always_append)

lemma no_pair_quiet:
  assumes "airlock_inv s" and "\<And>l v. Gpio l v \<notin> set xs"
  shows "no_pair_open s (xs @ trace s)"
proof -
  have "no_pair_open s (trace s)" using assms(1) always_now by (auto simp: airlock_inv_def)
  moreover have "door_open (xs @ trace s) d = door_open (trace s) d" for d
    using assms(2) by (intro door_open_append)
  ultimately show ?thesis by (simp add: no_pair_open_def)
qed

text \<open>Steps that add no output line.\<close>

lemma airlock_inv_silent:
  assumes inv: "airlock_inv s" and st: "static_sys t = static_sys s" and tr: "trace t = xs @ trace s"
    and xs: "\<And>l v. Gpio l v \<notin> set xs"
    and timers: "\<And>i. i < length (doors s) \<Longrightarrow> door_open (trace s) (door_at s i) \<Longrightarrow>
      0 < door_lock_timer (door_at s i) \<Longrightarrow> 0 < door_lock_timer (door_at t i)"
    and blocks: "\<And>i j. i < length (doors s) \<Longrightarrow> door_open (trace s) (door_at s i) \<Longrightarrow>
      0 < door_lock_timer (door_at s i) \<Longrightarrow> airLockPartnerLocal (door_at s i) = Some j \<Longrightarrow>
      airLockMask (door_at s j) = maskFull (door_at s j) \<Longrightarrow> airLockMask (door_at t j) = maskFull (door_at t j)"
  shows "airlock_inv t"
proof (rule airlock_invI [OF inv st tr])
  show "no_pair_open s (zs @ trace s)" if "set zs \<subseteq> set xs" for zs
    using that xs by (intro no_pair_quiet [OF inv]) blast
  show "open_guarded t"
    unfolding open_guarded_def static_sysD(1) [OF st]
  proof (intro allI impI)
    fix i assume i: "i < length (doors s)" and o: "door_open (trace t) (door_at t i)"
    note d = static_sysD(2) [OF st i]
    have "door_open (trace t) (door_at s i)"
      using o door_lines_static [OF d] by (simp add: door_open_def)
    then have os: "door_open (trace s) (door_at s i)"
      unfolding tr using xs by (subst (asm) door_open_append)
    then have g: "0 < door_lock_timer (door_at s i) \<and>
      (\<forall>j. airLockPartnerLocal (door_at s i) = Some j \<longrightarrow> airLockMask (door_at s j) = maskFull (door_at s j))"
      using inv i by (simp add: airlock_inv_def open_guarded_def)
    moreover have "airLockPartnerLocal (door_at t i) = airLockPartnerLocal (door_at s i)"
      using d by (simp add: static_door_def)
    ultimately show "0 < door_lock_timer (door_at t i) \<and>
      (\<forall>j. airLockPartnerLocal (door_at t i) = Some j \<longrightarrow> airLockMask (door_at t j) = maskFull (door_at t j))"
      using timers [OF i os] blocks [OF i os] by simp
  qed
qed

lemma airlock_mutual:
  assumes "airlock_inv s" and "i < length (doors s)" and "airLockPartnerLocal (door_at s i) = Some j"
  shows "j < length (doors s)" "j \<noteq> i" "airLockPartnerLocal (door_at s j) = Some i"
proof -
  have "\<forall>j. airLockPartnerLocal (door_at s i) = Some j \<longrightarrow>
      j < length (doors s) \<and> j \<noteq> i \<and> airLockPartnerLocal (door_at s j) = Some i"
    using assms(1,2) unfolding airlock_inv_def airlock_config_def by blast
  then show "j < length (doors s)" "j \<noteq> i" "airLockPartnerLocal (door_at s j) = Some i"
    using assms(3) by blast+
qed

lemma airlock_guard:
  assumes "airlock_inv s" and "i < length (doors s)" and "door_open (trace s) (door_at s i)"
  shows "0 < door_lock_timer (door_at s i)"
    and "airLockPartnerLocal (door_at s i) = Some j \<Longrightarrow> airLockMask (door_at s j) = maskFull (door_at s j)"
  using assms by (simp_all add: airlock_inv_def open_guarded_def)

lemma airlock_disjoint:
  "airlock_inv s \<Longrightarrow> i < length (doors s) \<Longrightarrow> j < length (doors s) \<Longrightarrow> j \<noteq> i \<Longrightarrow>
     set (door_lines (door_at s i)) \<inter> set (door_lines (door_at s j)) = {}"
  unfolding airlock_inv_def airlock_config_def by blast

lemma airlock_enabled: "airlock_inv s \<Longrightarrow> i < length (doors s) \<Longrightarrow> admDisableMask (door_at s i) = 0"
  unfolding airlock_inv_def airlock_config_def by blast

lemma airlock_now: "airlock_inv s \<Longrightarrow> no_pair_open s (trace s)"
  unfolding airlock_inv_def by (blast intro: always_now)

lemma masked_out: "a AND b AND NOT b AND c = 0" for a b c :: u32
  by (rule bit_word_eqI) (simp add: bit_simps)

text \<open>Unlocking.\<close>

lemma unlock_lines:
  assumes "m = push_bit (unat (maskOffset d)) (req AND maskFull d AND NOT (airLockMask d) AND NOT (admDisableMask d))"
    and "Gpio l v \<in> set (gpio_actions DO_UNLOCK m)"
  shows "l \<in> set (door_lines d)"
proof -
  have "set (mask_lines m) \<subseteq> set (door_lines d)"
    unfolding door_lines_def assms(1) by (intro mask_lines_mono) (auto simp: bit_simps)
  then show ?thesis using assms(2) by (auto simp: set_gpio_actions)
qed

lemma unlock_partner_closed:
  assumes inv: "airlock_inv s" and i: "i < length (doors s)" and p: "airLockPartnerLocal (door_at s i) = Some j"
    and "req AND maskFull (door_at s i) AND NOT (airLockMask (door_at s i)) AND NOT (admDisableMask (door_at s i)) \<noteq> 0"
  shows "\<not> door_open (trace s) (door_at s j)"
proof
  assume o: "door_open (trace s) (door_at s j)"
  note j = airlock_mutual [OF inv i p]
  have "airLockMask (door_at s i) = maskFull (door_at s i)" by (rule airlock_guard(2) [OF inv j(1) o j(3)])
  then show False using assms(4) by (simp add: masked_out)
qed

lemma airlock_inv_unlock:
  assumes inv: "airlock_inv s" and i: "i < length (doors s)" and d: "d = door_at s i"
    and m: "m = push_bit (unat (maskOffset d)) (req AND maskFull d AND NOT (airLockMask d) AND NOT (admDisableMask d))"
    and "m \<noteq> 0"
    and blocked: "\<And>p. airLockPartnerLocal d = Some p \<Longrightarrow> airLockMask (door_at s p) = maskFull (door_at s p)"
  shows "airlock_inv (upd_door i (\<lambda>d. d\<lparr>door_lock_timer := DOOR_OPEN_TIME\<rparr>)
      (emit (gpio_actions DO_UNLOCK m @ [Event (EVENT_DOOR_UNLOCK (doorName d) m)]) s))"
    (is "airlock_inv (upd_door i ?f (emit ?outs s))")
proof -
  let ?t = "upd_door i ?f (emit ?outs s)"
  have st: "static_sys ?t = static_sys s"
    using i by (subst static_upd_door) (simp_all add: static_door_def)
  have lines: "l \<in> set (door_lines d)" if "Gpio l v \<in> set ?outs" for l v
    using that by (intro unlock_lines [OF m, of l v]) simp
  have other: "door_open (zs @ trace s) (door_at s j) = door_open (trace s) (door_at s j)"
    if "set zs \<subseteq> set ?outs" "j < length (doors s)" "j \<noteq> i" for zs j
  proof (rule door_open_append)
    fix l v assume l: "l \<in> set (door_lines (door_at s j))"
    have "set (door_lines d) \<inter> set (door_lines (door_at s j)) = {}"
      unfolding d by (rule airlock_disjoint [OF inv i that(2,3)])
    then show "Gpio l v \<notin> set zs" using lines [of l v] l that(1) by blast
  qed
  have closed: "\<not> door_open (trace s) (door_at s j)" if "airLockPartnerLocal d = Some j" for j
  proof (rule unlock_partner_closed [OF inv i that [unfolded d], of req])
    show "req AND maskFull (door_at s i) AND NOT (airLockMask (door_at s i)) AND NOT (admDisableMask (door_at s i)) \<noteq> 0"
      using \<open>m \<noteq> 0\<close> unfolding m d by (metis push_bit_of_0)
  qed
  show ?thesis
  proof (rule airlock_invI [OF inv st, where xs = "rev ?outs"])
    show "trace ?t = rev ?outs @ trace s" by simp
    show "no_pair_open s (zs @ trace s)" if zs: "set zs \<subseteq> set (rev ?outs)" for zs
      unfolding no_pair_open_def
    proof (intro allI impI)
      fix a b assume ab: "a < length (doors s)" "b < length (doors s)" "airLockPartnerLocal (door_at s a) = Some b"
      have now: "no_pair_open s (trace s)" using inv by (rule airlock_now)
      note m' = airlock_mutual [OF inv ab(1,3)]
      have z: "set zs \<subseteq> set ?outs" using zs by simp
      show "\<not> (door_open (zs @ trace s) (door_at s a) \<and> door_open (zs @ trace s) (door_at s b))"
      proof (cases "a = i \<or> b = i")
        case True
        then show ?thesis
          using closed [of b] closed [of a] other [OF z, of a] other [OF z, of b] ab m' by (auto simp: d)
      next
        case False
        then show ?thesis
          using other [OF z, of a] other [OF z, of b] ab now by (auto simp: no_pair_open_def)
      qed
    qed
    show "open_guarded ?t"
      unfolding open_guarded_def static_sysD(1) [OF st]
    proof (intro allI impI)
      fix a assume a: "a < length (doors s)" and o: "door_open (trace ?t) (door_at ?t a)"
      show "0 < door_lock_timer (door_at ?t a) \<and>
        (\<forall>j. airLockPartnerLocal (door_at ?t a) = Some j \<longrightarrow> airLockMask (door_at ?t j) = maskFull (door_at ?t j))"
      proof (cases "a = i")
        case True
        then show ?thesis
          using i blocked airlock_mutual(1,2) [OF inv i] by (auto simp: d DOOR_OPEN_TIME_def)
      next
        case False
        then have "door_open (trace s) (door_at s a)"
          using o a other [of "rev ?outs" a] by simp
        then show ?thesis
          using False a airlock_guard [OF inv a] airlock_mutual(1) [OF inv a] by auto
      qed
    qed
  qed
qed

text \<open>Locking all lines of a door whose timer has run out.\<close>

lemma airlock_inv_expire:
  assumes inv: "airlock_inv s" and i: "i < length (doors s)" and d: "d = door_at s i"
    and m: "m = push_bit (unat (maskOffset d)) (maskFull d AND NOT (admDisableMask d))"
  shows "airlock_inv (emit (gpio_actions DO_LOCK m) (upd_door i (\<lambda>d. d\<lparr>door_lock_timer := 0\<rparr>) s))"
    (is "airlock_inv (emit ?outs (upd_door i ?f s))")
proof -
  let ?t = "emit ?outs (upd_door i ?f s)"
  have st: "static_sys ?t = static_sys s"
    using i by (simp add: static_upd_door static_door_def)
  have v: "v = 1" if "Gpio l v \<in> set ?outs" for l v using that by (simp add: set_gpio_actions)
  have shrink: "door_open (trace s) e" if "set zs \<subseteq> set ?outs" "door_open (zs @ trace s) e" for zs e
  proof (rule door_open_locked [OF _ that(2)])
    show "v = 1" if "Gpio l v \<in> set zs" for l v using that v \<open>set zs \<subseteq> set ?outs\<close> by blast
  qed
  have "admDisableMask d = 0" unfolding d using inv i by (rule airlock_enabled)
  then have "mask_lines m = door_lines d" by (simp add: m door_lines_def)
  then have shut: "\<not> door_open (rev ?outs @ trace s) d"
    unfolding door_open_def using v line_level_driven [of _ "rev ?outs" 1 "trace s"]
    by (auto simp: set_gpio_actions)
  show ?thesis
  proof (rule airlock_invI [OF inv st, where xs = "rev ?outs"])
    show "no_pair_open s (zs @ trace s)" if "set zs \<subseteq> set (rev ?outs)" for zs
      using airlock_now [OF inv] shrink [of zs] that unfolding no_pair_open_def by (metis set_rev)
    show "open_guarded ?t"
      unfolding open_guarded_def static_sysD(1) [OF st]
    proof (intro allI impI)
      fix a assume a: "a < length (doors s)" and o: "door_open (trace ?t) (door_at ?t a)"
      note da = static_sysD(2) [OF st a]
      have o': "door_open (rev ?outs @ trace s) (door_at s a)"
        using o door_lines_static [OF da] by (simp add: door_open_def)
      then have "a \<noteq> i" using shut d by auto
      moreover have "door_open (trace s) (door_at s a)" using shrink [of "rev ?outs"] o' by simp
      ultimately show "0 < door_lock_timer (door_at ?t a) \<and>
        (\<forall>j. airLockPartnerLocal (door_at ?t a) = Some j \<longrightarrow> airLockMask (door_at ?t j) = maskFull (door_at ?t j))"
        using a airlock_guard [OF inv a] airlock_mutual(1) [OF inv a] by auto
    qed
  qed simp
qed

lemma airlock_inv_quiet_step:
  assumes "quiet_step b s t" and inv: "airlock_inv s"
  shows "airlock_inv t"
  using assms
proof (cases rule: quiet_step.cases)
  case (reader h r)
  then show ?thesis
    by (intro airlock_inv_silent [OF inv quiet_step_static [OF assms(1)], of "[]"]) simp_all
next
  case (note_down outs)
  then show ?thesis
    by (intro airlock_inv_silent [OF inv quiet_step_static [OF assms(1)], of "rev outs"])
      (auto simp: quiet_action_def)
next
  case (reader_data i f sd)
  then show ?thesis
    using airlock_mutual(1) [OF inv]
    by (intro airlock_inv_silent [OF inv quiet_step_static [OF assms(1)], of "[]"]) auto
next
  case (inputs i inp)
  then show ?thesis
    using airlock_mutual(1) [OF inv]
    by (intro airlock_inv_silent [OF inv quiet_step_static [OF assms(1)], of "[]"]) auto
next
  case (alarm i tm)
  then show ?thesis
    using airlock_mutual(1) [OF inv]
    by (intro airlock_inv_silent [OF inv quiet_step_static [OF assms(1)], of "[]"]) auto
next
  case (block i p)
  then show ?thesis
    using airlock_mutual(1) [OF inv]
    by (intro airlock_inv_silent [OF inv quiet_step_static [OF assms(1)], of "[]"]) auto
next
  case (release i p)
  note i = \<open>i < length (doors s)\<close> and p = \<open>airLockPartnerLocal (door_at s i) = Some p\<close>
  show ?thesis
  proof (intro airlock_inv_silent [OF inv quiet_step_static [OF assms(1)], of "[]"])
    fix a j assume a: "a < length (doors s)" "0 < door_lock_timer (door_at s a)"
      "airLockPartnerLocal (door_at s a) = Some j" "airLockMask (door_at s j) = maskFull (door_at s j)"
    have "j \<noteq> p"
    proof
      assume "j = p"
      then have "a = i" using airlock_mutual(3) [OF inv a(1,3)] airlock_mutual(3) [OF inv i p] by simp
      then show False using a(2) release by simp
    qed
    then show "airLockMask (door_at t j) = maskFull (door_at t j)"
      using a airlock_mutual(1) [OF inv a(1,3)] release by simp
  qed (use release airlock_mutual(1) [OF inv] in auto)
next
  case (unlock i d m req)
  then show ?thesis
    using airlock_inv_unlock [OF inv unlock(2,3,5,6)] by simp
qed

lemma airlock_inv_timer_step:
  assumes "timer_step i s t" and inv: "airlock_inv s"
  shows "airlock_inv t"
  using assms
proof (cases rule: timer_step.cases)
  case tick
  then show ?thesis
    using airlock_mutual(1) [OF inv]
    by (intro airlock_inv_silent [OF inv timer_step_static [OF assms(1)], of "[]"]) auto
next
  case (expire d m)
  then show ?thesis using airlock_inv_expire [OF inv expire(2,3,6)] by simp
qed (use inv in simp)

lemma airlock_inv_quiet_steps: "(quiet_step b)\<^sup>*\<^sup>* s t \<Longrightarrow> airlock_inv s \<Longrightarrow> airlock_inv t"
  by (induction rule: rtranclp_induct) (auto intro: airlock_inv_quiet_step)

lemma airlock_inv_main_run: "main_run is s t \<Longrightarrow> airlock_inv s \<Longrightarrow> airlock_inv t"
proof (induction rule: main_run.induct)
  case (main_inputs s t)
  then show ?case by (auto intro: airlock_inv_quiet_steps)
next
  case (main_door i s u v "is" t)
  then show ?case by (auto intro: airlock_inv_quiet_steps airlock_inv_timer_step)
qed

subsection \<open>The lock timer\<close>

text \<open>How often a door of a given name has been unlocked.\<close>

definition unlock_count :: "string \<Rightarrow> action list \<Rightarrow> nat" where
  "unlock_count name tr =
     length (filter (\<lambda>x. case x of Event (EVENT_DOOR_UNLOCK n _) \<Rightarrow> n = name | _ \<Rightarrow> False) tr)"

lemma unlock_count_append [simp]: "unlock_count name (xs @ ys) = unlock_count name xs + unlock_count name ys"
  by (simp add: unlock_count_def)

text \<open>
  Between two counts of its timer a door keeps the timer unless it is unlocked: the relation
  composes.
\<close>

definition timer_kept :: "nat \<Rightarrow> 'r sys \<Rightarrow> 'r sys \<Rightarrow> bool" where
  "timer_kept i s t \<longleftrightarrow>
     unlock_count (doorName (door_at s i)) (trace s) \<le> unlock_count (doorName (door_at s i)) (trace t) \<and>
     (unlock_count (doorName (door_at s i)) (trace t) = unlock_count (doorName (door_at s i)) (trace s) \<longrightarrow>
        door_lock_timer (door_at t i) = door_lock_timer (door_at s i))"

lemma timer_kept_refl [simp]: "timer_kept i s s"
  by (simp add: timer_kept_def)

lemma timer_kept_trans:
  "timer_kept i s t \<Longrightarrow> timer_kept i t u \<Longrightarrow> doorName (door_at t i) = doorName (door_at s i) \<Longrightarrow> timer_kept i s u"
  unfolding timer_kept_def by auto

lemma unlock_count_gpio [simp]: "unlock_count n (rev (gpio_actions op m)) = 0"
  by (auto simp: unlock_count_def gpio_actions_def filter_empty_conv)

lemma unlock_count_quiet:
  "\<forall>x\<in>set outs. quiet_action x \<Longrightarrow> unlock_count n (rev outs) = 0"
  unfolding unlock_count_def length_0_conv filter_empty_conv
  by (fastforce simp: quiet_action_def split: action.splits event.splits)

lemma timer_kept_quiet_step:
  "quiet_step b s t \<Longrightarrow> i < length (doors s) \<Longrightarrow> timer_kept i s t"
proof (induction rule: quiet_step.induct)
  case (unlock j s d m req b)
  have "unlock_count n (Event (EVENT_DOOR_UNLOCK k m) # xs) = (if k = n then Suc (unlock_count n xs) else unlock_count n xs)" for n k xs
    by (simp add: unlock_count_def)
  then show ?case
    using \<open>i < length (doors s)\<close> unlock(2) by (cases "i = j") (simp_all add: timer_kept_def)
qed (auto simp: timer_kept_def unlock_count_quiet)

lemma timer_kept_quiet_steps:
  assumes "(quiet_step b)\<^sup>*\<^sup>* s t" and "i < length (doors s)"
  shows "timer_kept i s t \<and> static_sys t = static_sys s"
  using assms(1)
proof (induction rule: rtranclp_induct)
  case (step t u)
  then have l: "i < length (doors t)" and n: "doorName (door_at t i) = doorName (door_at s i)"
    using assms(2) static_sysD [of t s] by (auto simp: static_door_def)
  show ?case
    using step timer_kept_quiet_step [OF step(2) l] timer_kept_trans [OF _ _ n] quiet_step_static [OF step(2)] by auto
qed simp

lemma timer_kept_other_timer:
  "timer_step j s t \<Longrightarrow> j \<noteq> i \<Longrightarrow> i < length (doors s) \<Longrightarrow> timer_kept i s t"
  by (induction rule: timer_step.induct) (auto simp: timer_kept_def)

lemma main_run_static: "main_run is s t \<Longrightarrow> static_sys t = static_sys s"
proof (induction rule: main_run.induct)
  case (main_inputs s t)
  then show ?case by (induction rule: rtranclp_induct) (auto dest: quiet_step_static)
next
  case (main_door i s u v "is" t)
  have "static_sys v = static_sys u"
    using main_door(2) by (induction rule: rtranclp_induct) (auto dest: quiet_step_static)
  then show ?case using main_door timer_step_static by metis
qed

lemma main_run_timer_kept:
  "main_run is s t \<Longrightarrow> i \<notin> set is \<Longrightarrow> i < length (doors s) \<Longrightarrow> timer_kept i s t"
proof (induction rule: main_run.induct)
  case (main_inputs s t)
  then show ?case using timer_kept_quiet_steps by blast
next
  case (main_door j s u v "is" t)
  have u: "timer_kept i s u" "static_sys u = static_sys s"
    using timer_kept_other_timer [OF main_door(1)] timer_step_static [OF main_door(1)] main_door by auto
  have v: "timer_kept i u v" "static_sys v = static_sys u"
    using timer_kept_quiet_steps [OF main_door(2), of i] main_door static_sysD(1) [OF u(2)] by auto
  have t: "timer_kept i v t"
    using main_door.IH main_door static_sysD(1) [OF u(2)] static_sysD(1) [OF v(2)] by simp
  have n: "doorName (door_at u i) = doorName (door_at s i)" "doorName (door_at v i) = doorName (door_at u i)"
    using static_sysD(2) [OF u(2), of i] static_sysD(2) [OF v(2), of i] static_sysD(1) [OF u(2)] main_door
    by (simp_all add: static_door_def)
  show ?case
    using timer_kept_trans [OF timer_kept_trans [OF u(1) v(1) n(1)] t] n by simp
qed

text \<open>
  A cycle counts the timer of every door down by one, stopping at 0, unless the door is unlocked
  during the cycle.
\<close>

lemma main_run_timer:
  assumes "main_run is s t" and "i \<in> set is" and "distinct is" and "i < length (doors s)"
    and "unlock_count (doorName (door_at s i)) (trace t) = unlock_count (doorName (door_at s i)) (trace s)"
  shows "door_lock_timer (door_at t i) = max 0 (door_lock_timer (door_at s i) - 1)"
proof -
  have "unlock_count (doorName (door_at s i)) (trace s) \<le> unlock_count (doorName (door_at s i)) (trace t) \<and>
    (unlock_count (doorName (door_at s i)) (trace t) = unlock_count (doorName (door_at s i)) (trace s) \<longrightarrow>
      door_lock_timer (door_at t i) = max 0 (door_lock_timer (door_at s i) - 1))"
    using assms(1-4)
  proof (induction rule: main_run.induct)
    case (main_door j s u v "is" t)
    let ?n = "doorName (door_at s i)"
    have u: "static_sys u = static_sys s" using main_door(1) by (rule timer_step_static)
    have iu: "i < length (doors u)" using main_door static_sysD(1) [OF u] by simp
    have v: "timer_kept i u v" "static_sys v = static_sys u"
      using timer_kept_quiet_steps [OF main_door(2) iu] by auto
    have iv: "i < length (doors v)" using iu static_sysD(1) [OF v(2)] by simp
    have n: "doorName (door_at u i) = ?n" "doorName (door_at v i) = ?n"
      using static_sysD(2) [OF u, of i] static_sysD(2) [OF v(2) iu] main_door by (simp_all add: static_door_def)
    show ?case
    proof (cases "i = j")
      case True
      have step: "door_lock_timer (door_at u i) = max 0 (door_lock_timer (door_at s i) - 1)"
        "unlock_count ?n (trace u) = unlock_count ?n (trace s)"
        using main_door(1) True main_door by (cases rule: timer_step.cases; simp)+
      have "timer_kept i v t" using main_run_timer_kept [OF main_door(3) _ iv] True main_door by simp
      then have "timer_kept i u t" using timer_kept_trans [OF v(1)] n by simp
      then show ?thesis using step n by (simp add: timer_kept_def)
    next
      case False
      have "timer_kept i s u" using timer_kept_other_timer [OF main_door(1)] False main_door by auto
      then have k: "timer_kept i s v" using timer_kept_trans [OF _ v(1)] n by simp
      have "unlock_count ?n (trace v) \<le> unlock_count ?n (trace t) \<and>
          (unlock_count ?n (trace t) = unlock_count ?n (trace v) \<longrightarrow>
            door_lock_timer (door_at t i) = max 0 (door_lock_timer (door_at v i) - 1))"
        using main_door.IH main_door.prems False iv n by simp
      then show ?thesis using k unfolding timer_kept_def by auto
    qed
  qed simp
  then show ?thesis using assms(5) by simp
qed

end
