(* ===== verification/Door_Behaviour.thy ===== *)
theory Door_Behaviour
  imports Door_Safety
begin

text \<open>
  What the operations on a door do, beyond safety: the alarm, the manual open button, and the
  order in which \<open>check_inputs\<close> updates its state.
\<close>

subsection \<open>The history only grows\<close>

lemma quiet_step_trace: "quiet_step b s t \<Longrightarrow> \<exists>xs. trace t = xs @ trace s"
  by (induction rule: quiet_step.induct) auto

lemma quiet_steps_trace: "(quiet_step b)\<^sup>*\<^sup>* s t \<Longrightarrow> \<exists>xs. trace t = xs @ trace s"
proof (induction rule: rtranclp_induct)
  case (step t u)
  then show ?case using quiet_step_trace [of b t u] by auto
qed simp

lemma quiet_run_trace: "quiet_run b ok ow s t \<Longrightarrow> \<exists>xs. trace t = xs @ trace s"
  unfolding quiet_run_def using quiet_steps_trace by blast

lemma quiet_run_history: "quiet_run b ok ow s t \<Longrightarrow> x \<in> set (trace s) \<Longrightarrow> x \<in> set (trace t)"
  using quiet_run_trace by fastforce

lemma visible_subset: "x \<in> set (visible s) \<Longrightarrow> x \<in> set (trace s)"
  by (simp add: visible_def)

lemma agree_unlock_count: "agree s t \<Longrightarrow> unlock_count n (trace t) = unlock_count n (trace s)"
proof -
  have "unlock_count n xs = unlock_count n (filter (\<lambda>x. \<not> is_signal x) xs)" for xs
    by (induction xs) (auto simp: unlock_count_def split: action.splits)
  then show "agree s t \<Longrightarrow> unlock_count n (trace t) = unlock_count n (trace s)"
    by (metis agree_def visible_def)
qed

lemma flag_iff_bit:
  "x AND DI_MANUAL_OPEN \<noteq> 0 \<longleftrightarrow> bit x 0" "x AND DI_IS_EMERGENCY_OPEN \<noteq> 0 \<longleftrightarrow> bit x 1"
  "x AND DI_IS_DOOR_CLOSE \<noteq> 0 \<longleftrightarrow> bit x 2" "x AND DI_IS_DOOR_LOCK \<noteq> 0 \<longleftrightarrow> bit x 3"
  "x AND DI_STATE_IS_DIFF \<noteq> 0 \<longleftrightarrow> bit x 7" for x :: u8
proof -
  have p: "x AND push_bit k 1 \<noteq> 0 \<longleftrightarrow> bit x k" for k
  proof -
    have "bit (x AND push_bit k 1) n \<longleftrightarrow> n = k \<and> bit x k" for n
      by (auto simp: bit_simps dest: bit_imp_le_length)
    then show ?thesis by (metis bit_0_eq bit_eqI bot_apply bot_bool_def)
  qed
  have "(1 :: u8) = push_bit 0 1" "(2 :: u8) = push_bit 1 1" "(4 :: u8) = push_bit 2 1"
    "(8 :: u8) = push_bit 3 1" "(0x80 :: u8) = push_bit 7 1" by simp_all
  then show "x AND DI_MANUAL_OPEN \<noteq> 0 \<longleftrightarrow> bit x 0" "x AND DI_IS_EMERGENCY_OPEN \<noteq> 0 \<longleftrightarrow> bit x 1"
    "x AND DI_IS_DOOR_CLOSE \<noteq> 0 \<longleftrightarrow> bit x 2" "x AND DI_IS_DOOR_LOCK \<noteq> 0 \<longleftrightarrow> bit x 3"
    "x AND DI_STATE_IS_DIFF \<noteq> 0 \<longleftrightarrow> bit x 7" using p by metis+
qed

subsection \<open>The alarm\<close>

lemma alarm_constants:
  "bit (14 :: u8) k \<longleftrightarrow> k = 1 \<or> k = 2 \<or> k = 3" "bit (12 :: u8) k \<longleftrightarrow> k = 2 \<or> k = 3" "bit (8 :: u8) k \<longleftrightarrow> k = 3"
proof -
  have e: "(14 :: u8) = push_bit 1 1 OR push_bit 2 1 OR push_bit 3 1" "(12 :: u8) = push_bit 2 1 OR push_bit 3 1"
    "(8 :: u8) = push_bit 3 1" by simp_all
  show "bit (14 :: u8) k \<longleftrightarrow> k = 1 \<or> k = 2 \<or> k = 3"
    unfolding e(1) by (auto simp: bit_simps simp del: push_bit_of_1)
  show "bit (12 :: u8) k \<longleftrightarrow> k = 2 \<or> k = 3"
    unfolding e(2) by (auto simp: bit_simps simp del: push_bit_of_1)
  show "bit (8 :: u8) k \<longleftrightarrow> k = 3"
    unfolding e(3) by (auto simp: bit_simps simp del: push_bit_of_1)
qed

lemma alarm_of_bits: "bit (alarm_of inp) k \<longleftrightarrow> k = 1 \<and> bit inp 1 \<or> k = 2 \<and> \<not> bit inp 2"
proof -
  have "alarm_of inp = ((inp OR 8) AND 14) XOR 12" by (simp add: alarm_of_def ALARM_MASK_def)
  then show ?thesis by (simp only: bit_or_iff bit_and_iff bit_xor_iff alarm_constants) auto
qed

text \<open>The timer and the number of alarms sent after \<open>n\<close> cycles with a constant alarm.\<close>

fun alarm_cycles :: "u8 \<Rightarrow> nat \<Rightarrow> int \<times> nat" where
  "alarm_cycles a 0 = (0, 0)"
| "alarm_cycles a (Suc n) =
     (let (t, k) = alarm_cycles a n; (t', send) = alarm_step a t in (t', if send then Suc k else k))"

lemma alarm_cycles_eq:
  assumes "a \<noteq> 0"
  shows "alarm_cycles a (Suc n) = (60 - int (n mod 60), n div 60)"
proof (induction n)
  case 0
  then show ?case using assms by (simp add: alarm_step_def ALARM_RESEND_TIMER_def)
next
  case (Suc n)
  have step: "alarm_cycles a (Suc (Suc n)) =
      (let (t', send) = alarm_step a (60 - int (n mod 60)) in (t', if send then Suc (n div 60) else n div 60))"
    unfolding alarm_cycles.simps(2) [of a "Suc n"] Suc by simp
  have lt: "n mod 60 < 60" by simp
  show ?case
  proof (cases "Suc (n mod 60) = 60")
    case True
    then have m: "Suc n mod 60 = 0" "Suc n div 60 = Suc (n div 60)" "60 - int (n mod 60) = 1" by (simp_all add: mod_Suc div_Suc)
    show ?thesis unfolding step m using assms by (simp add: alarm_step_def ALARM_RESEND_TIMER_def)
  next
    case False
    then have m: "Suc n mod 60 = Suc (n mod 60)" "Suc n div 60 = n div 60" by (simp_all add: mod_Suc div_Suc)
    have "60 - int (n mod 60) \<noteq> 0" "60 - int (n mod 60) - 1 \<noteq> 0" using lt False by linarith+
    then show ?thesis unfolding step m using assms by (simp add: alarm_step_def)
  qed
qed

subsection \<open>Inputs\<close>

context reader_signals begin

text \<open>The manual open button: the rest of \<open>process_diff\<close> is \<open>process_diff\<close> without that flag.\<close>

lemma process_diff_manual:
  assumes "bit diff 0" and "bit inp 0"
  shows "process_diff rsig i inp diff s =
    cbind (unlock_door rsig i 1 (door_event EVENT_MANUAL_OPEN i s))
      (\<lambda>(_, t). process_diff rsig i inp (diff AND NOT 1) t)"
proof -
  have m: "(diff AND NOT 1) AND DI_MANUAL_OPEN = 0" "(diff AND NOT 1) AND DI_IS_EMERGENCY_OPEN = diff AND DI_IS_EMERGENCY_OPEN"
    "(diff AND NOT 1) AND DI_IS_DOOR_CLOSE = diff AND DI_IS_DOOR_CLOSE" "(diff AND NOT 1) AND DI_IS_DOOR_LOCK = diff AND DI_IS_DOOR_LOCK"
  proof -
    have "(NOT 1 AND 2 :: u8) = 2" "(NOT 1 AND 4 :: u8) = 4" "(NOT 1 AND 8 :: u8) = 8" "(NOT 1 AND 1 :: u8) = 0" by simp_all
    then show "(diff AND NOT 1) AND DI_MANUAL_OPEN = 0" "(diff AND NOT 1) AND DI_IS_EMERGENCY_OPEN = diff AND DI_IS_EMERGENCY_OPEN"
      "(diff AND NOT 1) AND DI_IS_DOOR_CLOSE = diff AND DI_IS_DOOR_CLOSE" "(diff AND NOT 1) AND DI_IS_DOOR_LOCK = diff AND DI_IS_DOOR_LOCK"
      by (simp_all only: and.assoc) simp
  qed
  have f: "diff AND DI_MANUAL_OPEN \<noteq> 0" "inp AND DI_MANUAL_OPEN \<noteq> 0" using assms by (simp_all only: flag_iff_bit)
  have assoc: "cbind (cbind r (\<lambda>(_, s). Inr s)) k = cbind r (\<lambda>(_, t). k t)" for r :: "(u32 \<times> 'a sys) cres" and k :: "'a sys \<Rightarrow> 'a sys cres"
    by (cases r) (simp_all add: case_prod_beta)
  show ?thesis
    unfolding process_diff_def m using f by (simp add: assoc)
qed

lemma check_door_manual:
  assumes w: "wf s" and i: "i < length (doors s)" and "bit inp 0"
    and d: "bit (lastInput (door_at s i)) 7 \<and> bit (lastInput (door_at s i)) 0 \<or>
      \<not> bit (lastInput (door_at s i)) 7 \<and> \<not> bit (lastInput (door_at s i)) 0"
    and m: "m = unlock_mask 1 (door_at s i)" "m \<noteq> 0"
  shows "returns (check_door rsig i inp s) (\<lambda>t. Event (EVENT_DOOR_UNLOCK (doorName (door_at s i)) m) \<in> set (trace t))"
proof -
  let ?last = "lastInput (door_at s i)" and ?e = "Event (EVENT_DOOR_UNLOCK (doorName (door_at s i)) m)"
  define diff where "diff = (if ?last AND DI_STATE_IS_DIFF \<noteq> 0 then ?last else inp XOR ?last)"
  have diff: "bit diff 0" using d \<open>bit inp 0\<close> unfolding diff_def flag_iff_bit by (auto simp: bit_xor_iff)
  then have "diff \<noteq> 0" by auto
  have q: "quietly s (door_event EVENT_MANUAL_OPEN i s)" by (rule door_event_ok [OF w]) (simp add: quiet_action_def)
  let ?s = "door_event EVENT_MANUAL_OPEN i s"
  have da: "door_at ?s = door_at s" by (simp add: door_event_def fun_eq_iff)
  have i': "i < length (doors ?s)" using i quiet_run_length [OF q] by simp
  obtain t where t: "unlock_door rsig i 1 ?s = Inr (m, t)" "quietly ?s t" "agree (unlocked_state i m ?s) t"
    using unlock_door_ok [OF quiet_run_wf [OF q] i', of m 1] m by (auto simp: da returns_iff)
  have e: "?e \<in> set (trace t)"
  proof -
    have "?e \<in> set (visible (unlocked_state i m ?s))"
      by (simp add: unlocked_state_def da)
    then have "?e \<in> set (visible t)" using t(3) by (simp add: agree_def)
    then show ?thesis by (rule visible_subset)
  qed
  have it: "i < length (doors t)" using i' quiet_run_length [OF t(2)] by simp
  obtain u where u: "process_diff rsig i inp (diff AND NOT 1) t = Inr u" "quietly t u"
    using process_diff_ok [OF quiet_run_wf [OF t(2)] it] by (auto simp: returns_iff)
  have eu: "?e \<in> set (trace u)" using quiet_run_history [OF u(2) e] .
  have "process_diff rsig i inp diff s = Inr u"
    using u(1) by (simp add: process_diff_manual [OF diff \<open>bit inp 0\<close>] t(1))
  then show ?thesis
    using \<open>diff \<noteq> 0\<close> eu by (auto simp: check_door_def diff_def [symmetric] Let_def case_prod_beta)
qed

text \<open>
  A door that closes while the last input still says open keeps its partner blocked: the flag
  is updated only after \<open>airLockOnPartner\<close> has looked at it.
\<close>

lemma check_door_close_event:
  assumes w: "wf s" and i: "i < length (doors s)"
    and last: "\<not> bit (lastInput (door_at s i)) 7" "\<not> bit (lastInput (door_at s i)) 2"
    and inp: "bit inp 2" "\<not> bit inp 0" "\<not> bit inp 1" and p: "p < length (doors s)"
  shows "returns (check_door rsig i inp s)
    (\<lambda>t. airLockMask (door_at t p) = airLockMask (door_at s p) \<and> lastInput (door_at t i) = inp)"
proof -
  let ?last = "lastInput (door_at s i)"
  define diff where "diff = inp XOR ?last"
  have "bit diff 2" using inp last by (simp add: diff_def bit_xor_iff)
  then have d: "diff \<noteq> 0" "diff AND DI_IS_DOOR_CLOSE \<noteq> 0" unfolding flag_iff_bit by auto
  have f: "inp AND DI_MANUAL_OPEN = 0" "inp AND DI_IS_EMERGENCY_OPEN = 0" "inp AND DI_IS_DOOR_CLOSE \<noteq> 0"
    "?last AND DI_STATE_IS_DIFF = 0" "?last AND DI_IS_DOOR_CLOSE = 0"
    using inp last flag_iff_bit [of inp] flag_iff_bit [of ?last] by simp_all
  define s1 where "s1 = (if diff AND DI_IS_EMERGENCY_OPEN \<noteq> 0 then door_event EVENT_DOOR_EMERGENCY_INACTIVE i s else s)"
  have q1: "quietly s s1" using w door_event_ok [OF w, of EVENT_DOOR_EMERGENCY_INACTIVE i] by (simp add: s1_def quiet_action_def)
  let ?s2 = "door_event EVENT_DOOR_IS_CLOSE i s1"
  have w2: "wf ?s2" using quiet_run_wf [OF q1] by (simp add: door_event_def wf_emit)
  have d2: "doors ?s2 = doors s" by (simp add: door_event_def s1_def)
  have "release_partner i ?s2 = ?s2"
    using f(5) d2 by (simp add: release_partner_def door_at_def split: option.split)
  then obtain t where t: "airLockOnPartner rsig i 0 ?s2 = Inr t" "doors t = doors s"
    using airLock_release_ok [OF w2, of i] i d2 by (auto simp: returns_iff agree_def)
  define t1 where "t1 = (if diff AND DI_IS_DOOR_LOCK \<noteq> 0
              then if inp AND DI_IS_DOOR_LOCK \<noteq> 0 then door_event EVENT_DOOR_IS_LOCK i t else door_event EVENT_DOOR_IS_UNLOCK i t
              else t)"
  have d1: "doors t1 = doors s" using t(2) by (simp add: t1_def door_event_def)
  have pd: "process_diff rsig i inp diff s = Inr (upd_door i (\<lambda>d. d\<lparr>lastInput := inp\<rparr>) t1)"
  proof -
    have "(if diff AND DI_IS_EMERGENCY_OPEN \<noteq> 0
            then if inp AND DI_IS_EMERGENCY_OPEN \<noteq> 0
                 then airLockOnPartner rsig i (NOT 0) (door_event EVENT_DOOR_EMERGENCY_ACTIVE i s)
                 else Inr (door_event EVENT_DOOR_EMERGENCY_INACTIVE i s)
            else Inr s) = Inr s1" using f(2) by (simp add: s1_def)
    then show ?thesis
      unfolding process_diff_def using d(2) f(1,3) t(1) by (simp add: t1_def)
  qed
  let ?t = "upd_door i (\<lambda>d. d\<lparr>lastInput := inp\<rparr>) t1"
  have at: "door_at t1 k = door_at s k" for k using d1 by (simp add: door_at_def)
  have "airLockMask (door_at ?t p) = airLockMask (door_at s p) \<and> lastInput (door_at ?t i) = inp \<and> length (doors ?t) = length (doors s)"
    using i p d1 at by simp
  then show ?thesis
    using pd d(1) f(4) i p by (simp add: check_door_def diff_def [symmetric] Let_def case_prod_beta at)
qed

end

end
