(* ===== verification/Access_Decision.thy ===== *)
theory Access_Decision
  imports Door_Behaviour
begin

text \<open>
  The access decision as a whole: what the data a reader holds must satisfy for its door to
  open, stated over the database (\<open>access_granted\<close>), and the proof that the switch of
  \<open>process_user_info\<close> computes it and that the door is unlocked exactly then.
\<close>

subsection \<open>The database decision\<close>

lemma getAccessMask2_cases:
  assumes "getAccessMask2 pin pin_len crd card_len mode doorname db = Inr (m, evs)"
    and "mode \<in> db_modes" and "pin_len \<le> length pin" "pin_len < 2 ^ 64"
    and "mode \<noteq> MODE_PIN \<Longrightarrow> 0 < card_len \<and> card_len \<le> length crd" and "m \<noteq> 0"
    and "p = mode_pin_md5 mode (take pin_len pin)" and "c = mode_card mode (take card_len crd)"
  obtains err user where "rows_loop mode doorname p (db_time db) (step_rows db (access_sql mode doorname p c))
    (0, AUTH_ERR, None) = Inr (m, err, user)"
proof -
  have digest: "(if mode = MODE_PIN \<or> mode = MODE_CARD_AND_PIN_ALWAYS then pin_md5_str pin pin_len else Inr '''') = Inr p"
    using assms(3,4,7) by (simp add: mode_pin_md5_def pin_md5_str_eq)
  obtain s where s: "access_sql_cond mode p c = Some s"
    using cond_eq [OF assms(2), of p "take card_len crd"] assms(8) by auto
  define uses where "uses \<longleftrightarrow> mode = MODE_CARD \<or> mode = MODE_CARD_AND_PIN \<or> mode = MODE_CARD_AND_PIN_ALWAYS"
  have card: "(if uses then card_str crd card_len else Inr '''') = Inr c"
    using assms(2,5,8) by (auto simp: mode_card_def card_str_eq db_modes_def uses_def)
  have "\<exists>err user. rows_loop mode doorname p (db_time db) (step_rows db (access_sql mode doorname p c))
    (0, AUTH_ERR, None) = Inr (m, err, user)"
    using assms(1,6) unfolding getAccessMask2_def digest cbind_simps Let_def uses_def [symmetric] card s option.case
    by (auto simp: access_sql_def s cres_simps split: if_splits)
  then show ?thesis using that by blast
qed

definition db_grants :: "auth_db \<Rightarrow> string \<Rightarrow> u8 \<Rightarrow> u8 list \<Rightarrow> u8 list \<Rightarrow> bool" where
  "db_grants db name mode pin crd \<longleftrightarrow>
     (\<exists>row\<in>set (step_rows db (access_sql mode name (mode_pin_md5 mode pin) (mode_card mode crd))).
        row_grants mode (mode_pin_md5 mode pin) (db_time db) row)"

lemma rows_mask_nonzero:
  assumes "\<forall>row\<in>set rows. row_ok mode doorname row"
    and "rows_loop mode doorname p now rows (0, AUTH_ERR, None) = Inr (m, err, user)"
  shows "m \<noteq> 0 \<longleftrightarrow> (\<exists>row\<in>set rows. row_grants mode p now row)"
proof -
  have bits: "bit m k \<longleftrightarrow> (\<exists>row\<in>set rows. row_grants mode p now row \<and> row_subdoor_is doorname k row)" for k
    using rows_loop_ok [OF assms(1), of p now 0 AUTH_ERR None] assms(2) by auto
  have "m \<noteq> 0 \<longleftrightarrow> (\<exists>k. bit m k)" by (metis bit_0_eq bit_eqI bot_apply bot_bool_def)
  then show ?thesis unfolding bits using assms(1) by (auto simp: row_ok_def)
qed

text \<open>A non-zero mask is backed by a row; the converse needs a statement that fits the buffer.\<close>

lemma getAccessMask2_iff:
  assumes "getAccessMask2 pin pin_len crd card_len mode doorname db = Inr (m, evs)"
    and "mode \<in> db_modes" and "pin_len \<le> length pin" "pin_len < 2 ^ 64"
    and "mode \<noteq> MODE_PIN \<Longrightarrow> 0 < card_len \<and> card_len \<le> length crd" and "db_ok db doorname"
  shows "m \<noteq> 0 \<Longrightarrow> db_grants db doorname mode (take pin_len pin) (take card_len crd)"
    and "length doorname \<le> 198 \<Longrightarrow> (mode \<noteq> MODE_PIN \<Longrightarrow> card_len \<le> 16) \<Longrightarrow>
      m \<noteq> 0 \<longleftrightarrow> db_grants db doorname mode (take pin_len pin) (take card_len crd)"
proof -
  let ?p = "mode_pin_md5 mode (take pin_len pin)" and ?c = "mode_card mode (take card_len crd)"
  let ?rows = "step_rows db (access_sql mode doorname ?p ?c)"
  have ok: "\<forall>row\<in>set ?rows. row_ok mode doorname row" using assms(2,6) by (auto simp: db_ok_def)
  have loop: "m \<noteq> 0 \<longleftrightarrow> db_grants db doorname mode (take pin_len pin) (take card_len crd)"
    if "rows_loop mode doorname ?p (db_time db) ?rows (0, AUTH_ERR, None) = Inr (m, e, u)" for e u
    unfolding db_grants_def by (rule rows_mask_nonzero [OF ok that])
  show "db_grants db doorname mode (take pin_len pin) (take card_len crd)" if m: "m \<noteq> 0"
    by (rule getAccessMask2_cases [OF assms(1-5) m refl refl]) (use loop m in simp_all)
  show "m \<noteq> 0 \<longleftrightarrow> db_grants db doorname mode (take pin_len pin) (take card_len crd)"
    if "length doorname \<le> 198" "mode \<noteq> MODE_PIN \<Longrightarrow> card_len \<le> 16"
  proof -
    have "cbind (rows_loop mode doorname ?p (db_time db) ?rows (0, AUTH_ERR, None))
       (\<lambda>(m, e, user). Inr (m, [if m \<noteq> 0 then EVENT_AUTH_OK (Some doorname) m user ?c
                                       else auth_err_event e (Some doorname) user ?c])) = Inr (m, evs)"
      unfolding assms(1) [symmetric] using assms(5) that by (intro getAccessMask2_eq [symmetric] assms(2-4)) simp_all
    then show ?thesis using loop unfolding cbind_Inr_iff by auto
  qed
qed

definition key_grants :: "auth_db \<Rightarrow> u8 list \<Rightarrow> u8 list \<Rightarrow> bool" where
  "key_grants db c1 c2 \<longleftrightarrow>
     (case step_rows db (key_sql (hex_string True c1) (hex_string True c2)) of
        [] \<Rightarrow> False | row # _ \<Rightarrow> db_time db < col_expire row)"

lemma checkKeyAccess2_iff:
  assumes "0 < n" "n \<le> 16" "n \<le> length c" "0 < k" "k \<le> 16" "k \<le> length e"
  shows "returns (checkKeyAccess2 c n e k db) (\<lambda>(m, evs). m \<noteq> 0 \<longleftrightarrow> key_grants db (take n c) (take k e))"
  using assms
  by (auto simp: checkKeyAccess2_def MAX_CARD_LEN_def card_str_eq Let_def BUF_SIZE_def key_sql_def squote_def
      key_grants_def split: list.split)

subsection \<open>What an access mode asks for\<close>

text \<open>
  When the data a reader holds open its door: the meaning of the access modes, stated over the
  database and not over the code.
\<close>

definition access_granted :: "door_reader \<Rightarrow> string \<Rightarrow> auth_db \<Rightarrow> bool" where
  "access_granted dr name db \<longleftrightarrow>
     (let mode = accessMode dr; pin = take (pinLen dr) (dr_pin dr); crd = take (cardLen dr) (dr_card dr);
          have_card = (cardLen dr \<noteq> 0); have_pin = (pinLen dr \<noteq> 0);
          by_card = (have_card \<and> db_grants db name MODE_CARD pin crd);
          by_pin = (have_pin \<and> db_grants db name MODE_PIN pin crd);
          by_both = (have_card \<and> have_pin \<and> db_grants db name MODE_CARD_AND_PIN_ALWAYS pin crd);
          alone = (have_card \<and> \<not> have_pin \<and> db_grants db name MODE_CARD_AND_PIN pin crd)
      in if mode = MODE_CARD then by_card
         else if mode = MODE_PIN then by_pin
         else if mode = MODE_CARD_OR_PIN then if have_card then by_card else by_pin
         else if mode = MODE_CARD_AND_PIN then by_both \<or> alone
         else if mode = MODE_CARD_AND_PIN_ALWAYS then by_both
         else if mode = MODE_TWO_CARDS
         then have_card \<and> card2Len dr \<noteq> 0 \<and> key_grants db crd (take (card2Len dr) (dr_card2 dr))
         else False)"

lemma auth_switch_granted:
  assumes w: "wf_dr dr" and db: "db_ok db name" and len: "length name \<le> 198"
    and sw: "auth_switch dr name db = Inr (dr', m, evs, ask)"
  shows "m \<noteq> 0 \<longleftrightarrow> access_granted dr name db"
proof -
  have lens: "pinLen dr \<le> length (dr_pin dr)" "cardLen dr \<le> length (dr_card dr)" "card2Len dr \<le> length (dr_card2 dr)"
    "pinLen dr < 2 ^ 64" "cardLen dr \<le> 16" "card2Len dr \<le> 16"
    using w by (simp_all add: wf_dr_def)
  have acc: "k \<noteq> 0 \<longleftrightarrow> db_grants db name mode (take (pinLen dr) (dr_pin dr)) (take (cardLen dr) (dr_card dr))"
    if "getAccessMask dr mode name db = Inr (k, es)" "mode \<in> db_modes" "mode \<noteq> MODE_PIN \<Longrightarrow> cardLen dr \<noteq> 0" for mode k es
    using getAccessMask2_iff(2) [of "dr_pin dr" "pinLen dr" "dr_card dr" "cardLen dr" mode name db k es] that lens db len
    by (simp add: getAccessMask_def)
  have key: "k \<noteq> 0 \<longleftrightarrow> key_grants db (take (cardLen dr) (dr_card dr)) (take (card2Len dr) (dr_card2 dr))"
    if "checkKeyAccess dr db = Inr (k, es)" "cardLen dr \<noteq> 0" "card2Len dr \<noteq> 0" for k es
    using checkKeyAccess2_iff [of "cardLen dr" "dr_card dr" "card2Len dr" "dr_card2 dr" db] that lens
    by (simp add: checkKeyAccess_def)
  have modes: "MODE_CARD \<in> db_modes" "MODE_PIN \<in> db_modes" "MODE_CARD_AND_PIN \<in> db_modes" "MODE_CARD_AND_PIN_ALWAYS \<in> db_modes"
    by (simp_all add: db_modes_def)
  note r = acc [OF _ modes(1)] acc [OF _ modes(2)] acc [OF _ modes(3)] acc [OF _ modes(4)] key
  consider "accessMode dr = MODE_CARD_OR_PIN" | "accessMode dr = MODE_CARD" | "accessMode dr = MODE_PIN"
    | "accessMode dr = MODE_CARD_AND_PIN" | "accessMode dr = MODE_CARD_AND_PIN_ALWAYS" | "accessMode dr = MODE_TWO_CARDS"
    | "accessMode dr \<notin> {MODE_CARD_OR_PIN, MODE_CARD, MODE_PIN, MODE_CARD_AND_PIN, MODE_CARD_AND_PIN_ALWAYS, MODE_TWO_CARDS}"
    by auto
  then show ?thesis
  proof cases
    case 1 then show ?thesis using sw r by (auto simp: auth_switch_def access_granted_def cres_simps split: if_splits)
  next
    case 2 then show ?thesis using sw r by (auto simp: auth_switch_def access_granted_def cres_simps split: if_splits)
  next
    case 3 then show ?thesis using sw r by (auto simp: auth_switch_def access_granted_def cres_simps split: if_splits)
  next
    case 4 then show ?thesis using sw r
      by (auto simp: auth_switch_def access_granted_def start_two_factor_def cres_simps split: if_splits)
  next
    case 5 then show ?thesis using sw r
      by (auto simp: auth_switch_def access_granted_def start_two_factor_def cres_simps split: if_splits)
  next
    case 6 then show ?thesis using sw r
      by (auto simp: auth_switch_def access_granted_def start_two_factor_def cres_simps split: if_splits)
  next
    case 7 then show ?thesis using sw by (simp add: auth_switch_def access_granted_def)
  qed
qed

subsection \<open>Output lines and signals\<close>

lemma line_level_signals: "line_level (filter (\<lambda>x. \<not> is_signal x) tr) = line_level tr"
proof
  show "line_level (filter (\<lambda>x. \<not> is_signal x) tr) l = line_level tr l" for l
    by (induction tr) (auto split: action.splits)
qed

lemma line_level_agree: "agree s t \<Longrightarrow> line_level (trace t) = line_level (trace s)"
  by (metis agree_def line_level_signals visible_def)

lemma line_level_events: "(\<And>l v. Gpio l v \<notin> set xs) \<Longrightarrow> line_level (xs @ tr) = line_level tr"
  by (rule ext) (simp add: line_level_append)

lemma unlocked_line:
  "line_level (trace (unlocked_state i m s)) l = (if l \<in> set (mask_lines m) then Some 0 else line_level (trace s) l)"
proof -
  let ?xs = "rev (gpio_actions DO_UNLOCK m @ [Event (EVENT_DOOR_UNLOCK (doorName (door_at s i)) m)])"
  have t: "trace (unlocked_state i m s) = ?xs @ trace s"
    by (simp add: unlocked_state_def block_partner_def split: option.split)
  show ?thesis
  proof (cases "l \<in> set (mask_lines m)")
    case True
    then have "line_level (?xs @ trace s) l = Some 0" by (intro line_level_driven) (auto simp: set_gpio_actions)
    then show ?thesis using True t by simp
  next
    case False
    then have "line_level (?xs @ trace s) l = line_level (trace s) l" by (intro line_level_append) (auto simp: set_gpio_actions)
    then show ?thesis using False t by simp
  qed
qed

lemma unlock_mask_static:
  "unlock_mask m (set_dr sd r d) = unlock_mask m d"
  by (simp add: unlock_mask_def)

lemma unlocked_timer [simp]:
  "i < length (doors s) \<Longrightarrow> door_lock_timer (door_at (unlocked_state i m s) i) = DOOR_OPEN_TIME"
proof -
  have "length (doors (block_partner i s)) = length (doors s)"
    by (simp add: block_partner_def split: option.split)
  then show "i < length (doors s) \<Longrightarrow> ?thesis" by (simp add: unlocked_state_def)
qed

subsection \<open>The decision drives the door\<close>

context reader_signals begin

lemma process_user_info_decides:
  assumes w: "wf s" and c: "creds_sys s" and i: "i < length (doors s)" and name: "name = doorName (door_at s i)"
    and db: "db_ok db name" and len: "length name \<le> 198"
    and sd: "reader_side h (door_at s i) = Some sd"
    and st: "store_data data ty md (get_dr sd (door_at s i)) = Inr (dr, None)"
  shows "returns (process_user_info rsig db data ty md h i s) (\<lambda>t.
    (if access_granted dr name db
     then \<exists>m. m \<noteq> 0 \<and> (unlock_mask m (door_at s i) \<noteq> 0 \<longrightarrow> door_lock_timer (door_at t i) = DOOR_OPEN_TIME \<and>
       (\<forall>l\<in>set (mask_lines (unlock_mask m (door_at s i))). line_level (trace t) l = Some 0))
     else line_level (trace t) = line_level (trace s) \<and> (\<forall>n. unlock_count n (trace t) = unlock_count n (trace s))))"
proof -
  note own = side_data [OF w c i sd]
  have d: "wf_dr dr" using store_data_ok [OF own(1,2), of data ty md] st by (auto simp: returns_iff)
  show ?thesis
  proof (rule info_accepted [OF w c i name db sd st])
    fix dr' m evs ask s'
    assume sw: "auth_switch dr name db = Inr (dr', m, evs, ask)"
      and pui: "process_user_info rsig db data ty md h i s = finish_info h i sd m dr' s'"
      and a: "agree (upd_dr i sd (\<lambda>_. dr') (emit (map Event evs) s)) s'"
      and evs: "\<forall>ev\<in>set evs. event_type ev < 4" and run: "run s s'"
    have w': "wf s'" and l: "i < length (doors s')" using run i by (auto simp: quiet_run_length intro: quiet_run_wf)
    have granted: "m \<noteq> 0 \<longleftrightarrow> access_granted dr name db" by (rule auth_switch_granted [OF d db len sw])
    have quiet: "\<forall>x\<in>set (map Event evs). quiet_action x" using evs by (auto simp: quiet_action_def split: event.split)
    have lv: "line_level (trace s') = line_level (trace s)" "unlock_count n (trace s') = unlock_count n (trace s)" for n
      using line_level_agree [OF a] agree_unlock_count [OF a, of n] unlock_count_quiet [OF quiet, of n]
      by (simp_all add: line_level_events flip: rev_map) (rule line_level_events, auto)
    have um: "unlock_mask m (door_at s' i) = unlock_mask m (door_at s i)"
      using i by (simp add: unlock_mask_static agree_door_at [OF a])
    show ?thesis
    proof (cases "m = 0")
      case True
      have "returns (authError rsig h s') (\<lambda>u. line_level (trace u) = line_level (trace s) \<and>
          (\<forall>n. unlock_count n (trace u) = unlock_count n (trace s)))"
        unfolding authError_def
        by (rule returns_mono [OF call_signal_ok [OF w']])
          (use line_level_agree agree_unlock_count lv in metis)
      then show ?thesis using True granted lv by (simp add: pui finish_info_def)
    next
      case False
      obtain t where t: "unlock_door rsig i m s' = Inr (unlock_mask m (door_at s i), t)"
        "agree (if unlock_mask m (door_at s i) = 0 then s' else unlocked_state i (unlock_mask m (door_at s i)) s') t"
        using unlock_door_ok [OF w' l um [symmetric]] by (auto simp: returns_iff)
      have lt: "i < length (doors t)"
        using agree_length [OF t(2)] l by (simp add: unlocked_state_def block_partner_def split: if_splits option.splits)
      have "door_lock_timer (door_at t i) = DOOR_OPEN_TIME \<and>
          (\<forall>l\<in>set (mask_lines (unlock_mask m (door_at s i))). line_level (trace t) l = Some 0)"
        if "unlock_mask m (door_at s i) \<noteq> 0"
        using t(2) that l line_level_agree [OF t(2)] by (simp add: agree_door_at unlocked_line)
      then show ?thesis using False granted lt t(1) by (auto simp: pui finish_info_def)
    qed
  qed
qed

end

end
