(* ===== verification/Reader_Idesco.thy ===== *)
theory Reader_Idesco
  imports Osdp Access_Decision
begin

text \<open>
  The OSDP reader driver (\<open>readers/reader-idesco.c\<close>): its private data, polling, PIN entry and
  signals, and the proof that it fulfils the contract the door controller relies on.

  A reader's link is part of its private data: \<open>incoming\<close> lists the results of the coming
  calls of \<open>read\<close> (an exhausted list reads as an error), \<open>outgoing\<close> what was handed to
  \<open>write\<close>. The locals of a call are uninitialised: what its \<open>n\<close>-th call finds on the stack, and
  what \<open>readlink\<close> and \<open>portsetup\<close> return in it, is \<open>frames n\<close>. \<open>char_signed\<close> tells whether
  \<open>char\<close> is a signed type. Delays and log messages are left out.
\<close>

subsection \<open>Private data\<close>

record reader_frame =
  fr_packet :: osdp_packet
  fr_answer :: osdp_packet
  fr_res :: osdp_response
  fr_readlink :: int
  fr_portsetup :: int

record idesco_reader =
  rd_serial :: int
  use_rs485_te :: bool
  rd_address :: u8
  pin_buf :: "u8 list"
  pin_buf_pos :: nat
  code_timeout :: int
  rd_user_data :: nat
  incoming :: "read_result list"
  outgoing :: "u8 list list"
  frames :: "nat \<Rightarrow> reader_frame"
  calls :: nat

definition IDESCO_MAX_PIN_LEN :: nat where "IDESCO_MAX_PIN_LEN = 28"
definition CARD_ID_OFFSET :: nat where "CARD_ID_OFFSET = 4"

text \<open>\<open>init_reader\<close>: \<open>junk\<close> is the memory \<open>malloc\<close> returns; \<open>None\<close> when the port does not open.\<close>

definition init_reader :: "int \<Rightarrow> idesco_reader \<Rightarrow> bool \<Rightarrow> u8 \<Rightarrow> nat \<Rightarrow> idesco_reader option" where
  "init_reader readerSerial junk use_te readerAddress readerUserData =
     (if readerSerial < 0 then None
      else Some (junk\<lparr>rd_serial := readerSerial, rd_address := readerAddress, use_rs485_te := use_te,
                      pin_buf := (pin_buf junk)[0 := 0], pin_buf_pos := 0, rd_user_data := readerUserData\<rparr>))"

definition clear_reader_data :: "idesco_reader \<Rightarrow> idesco_reader" where
  "clear_reader_data r = r\<lparr>code_timeout := 0, pin_buf_pos := 0\<rparr>"

definition char_val :: "bool \<Rightarrow> u8 \<Rightarrow> int" where
  "char_val char_signed b = (if char_signed then sint b else uint b)"

subsection \<open>Sending and receiving\<close>

text \<open>Building a packet in the local \<open>packet\<close> and sending it; receiving into \<open>packet\<close>.\<close>

type_synonym io_state = "osdp_packet \<times> idesco_reader"

definition send_cmd :: "(osdp_packet \<Rightarrow> osdp_packet cres) \<Rightarrow> io_state \<Rightarrow> io_state cres" where
  "send_cmd build = (\<lambda>(packet, r).
     cbind (build packet) (\<lambda>packet.
     cbind (send_packet packet 0) (\<lambda>(bytes, _).
     Inr (packet, r\<lparr>outgoing := outgoing r @ [bytes]\<rparr>))))"

definition next_read :: "idesco_reader \<Rightarrow> read_result \<times> idesco_reader" where
  "next_read r = (case incoming r of [] \<Rightarrow> (None, r) | x # xs \<Rightarrow> (x, r\<lparr>incoming := xs\<rparr>))"

definition recv_ack :: "io_state \<Rightarrow> io_state" where
  "recv_ack = (\<lambda>(packet, r).
     let (rd, r) = next_read r in (snd (recv_packet packet rd), r))"

definition new_call :: "idesco_reader \<Rightarrow> reader_frame \<times> idesco_reader" where
  "new_call r = (frames r (calls r), r\<lparr>calls := Suc (calls r)\<rparr>)"

subsection \<open>\<open>reader_signal\<close>\<close>

definition one_cmd :: "(osdp_packet \<Rightarrow> osdp_packet cres) \<Rightarrow> io_state \<Rightarrow> io_state cres" where
  "one_cmd f st = send_cmd f st"

definition two_cmds ::
  "(osdp_packet \<Rightarrow> osdp_packet cres) \<Rightarrow> (osdp_packet \<Rightarrow> osdp_packet cres) \<Rightarrow> io_state \<Rightarrow> io_state cres" where
  "two_cmds f g st = cbind (send_cmd f st) (\<lambda>st. send_cmd g (recv_ack st))"

definition signal_cmds :: "bool \<Rightarrow> u8 \<Rightarrow> u8 \<Rightarrow> (io_state \<Rightarrow> io_state cres) option" where
  "signal_cmds char_signed sg a =
     (let v = char_val char_signed sg
      in if v = 0x10 then Some (two_cmds (\<lambda>p. ledset p a 1 GREEN False 48) (\<lambda>p. beepset p a 1 1 1))
         else if v = 0x11 then Some (two_cmds (\<lambda>p. ledset p a 1 GREEN False 0) (\<lambda>p. beepset p a 1 1 1))
         else if v = 0x12 then Some (one_cmd (\<lambda>p. ledset p a 1 BLACK False 0))
         else if v = 0x20 \<or> v = 0x21 \<or> v = 0x22 \<or> v = 0x23
         then Some (two_cmds (\<lambda>p. ledset p a 1 RED True 24) (\<lambda>p. beepset p a 3 1 3))
         else if v = 0x41 then Some (two_cmds (\<lambda>p. ledset p a 1 AMBER True 12) (\<lambda>p. beepset p a 1 1 2))
         else if v = 0x42 then Some (one_cmd (\<lambda>p. ledset p a 1 AMBER True 12))
         else if v = 0x81 then Some (two_cmds (\<lambda>p. ledset p a 2 AMBER True 0) (\<lambda>p. ledset p a 1 AMBER True 0))
         else if v = 0x82 then Some (two_cmds (\<lambda>p. ledset p a 2 BLACK False 0) (\<lambda>p. ledset p a 1 BLACK True 0))
         else None)"

definition reader_signal :: "bool \<Rightarrow> u8 \<Rightarrow> idesco_reader \<Rightarrow> idesco_reader cres" where
  "reader_signal char_signed sg r =
     (let (frame, r) = new_call r
      in case signal_cmds char_signed sg (rd_address r) of
           None \<Rightarrow> Inr r
         | Some cmds \<Rightarrow> cbind (cmds (fr_packet frame, r)) (\<lambda>st. Inr (snd (recv_ack st))))"

subsection \<open>\<open>get_reader_data\<close>\<close>

definition upd_own :: "nat \<Rightarrow> (idesco_reader \<Rightarrow> idesco_reader) \<Rightarrow> idesco_reader sys \<Rightarrow> idesco_reader sys" where
  "upd_own h f s = upd_reader h (f (readers s h)) s"

text \<open>Handing the PIN buffer to the controller.\<close>

definition send_pin :: "idesco_reader callback \<Rightarrow> nat \<Rightarrow> data_mode \<Rightarrow> idesco_reader sys \<Rightarrow> idesco_reader sys cres" where
  "send_pin cb h md s =
     (let r = readers s h
      in cbind (cb (take (pin_buf_pos r) (pin_buf r)) DATA_IS_PIN md h (rd_user_data r) s) (\<lambda>s.
         Inr (upd_own h (\<lambda>r. r\<lparr>pin_buf_pos := 0\<rparr>) s)))"

definition put_pin :: "nat \<Rightarrow> u8 \<Rightarrow> idesco_reader sys \<Rightarrow> idesco_reader sys cres" where
  "put_pin h c s =
     cbind (store (pin_buf (readers s h)) (pin_buf_pos (readers s h)) c) (\<lambda>b.
     Inr (upd_own h (\<lambda>r. r\<lparr>pin_buf := b\<rparr>) s))"

text \<open>One pass of the loop over the keys received.\<close>

definition key_step ::
  "idesco_reader callback \<Rightarrow> nat \<Rightarrow> int \<Rightarrow> u8 list \<Rightarrow> nat \<Rightarrow> idesco_reader sys \<Rightarrow> idesco_reader sys cres" where
  "key_step cb h input_timeout payload i s =
     cbind (fetch payload i) (\<lambda>c.
     cbind (if c = 0x7f then Inr (upd_own h (\<lambda>r. r\<lparr>pin_buf_pos := 0\<rparr>) s)
            else if c = 0x0d then cbind (put_pin h 0 s) (send_pin cb h DATA_OK)
            else cbind (if pin_buf_pos (readers s h) = IDESCO_MAX_PIN_LEN then send_pin cb h DATA_OUT_OF_BUF s
                        else Inr s) (\<lambda>s.
                 cbind (put_pin h c s) (\<lambda>s.
                 Inr (upd_own h (\<lambda>r. r\<lparr>pin_buf_pos := Suc (pin_buf_pos r)\<rparr>) s)))) (\<lambda>s.
     Inr (upd_own h (\<lambda>r. r\<lparr>code_timeout := input_timeout\<rparr>) s)))"

definition ack_step ::
  "idesco_reader callback \<Rightarrow> nat \<Rightarrow> int \<Rightarrow> idesco_reader sys \<Rightarrow> idesco_reader sys cres" where
  "ack_step cb h input_timeout s =
     (let r = readers s h
      in if pin_buf_pos r > 0
         then if code_timeout r > 0 then Inr (upd_own h (\<lambda>r. r\<lparr>code_timeout := code_timeout r - 1\<rparr>) s)
              else if input_timeout \<noteq> 0 then send_pin cb h DATA_TIMEOUT s
              else Inr s
         else Inr s)"

text \<open>
  The switch over the answer. A card number that would reach beyond the payload array counts as
  an access outside it.
\<close>

definition handle_answer ::
  "bool \<Rightarrow> idesco_reader callback \<Rightarrow> nat \<Rightarrow> int \<Rightarrow> osdp_response \<Rightarrow> idesco_reader sys \<Rightarrow> idesco_reader sys cres" where
  "handle_answer char_signed cb h input_timeout res s =
     (let len = nat (char_val char_signed (rsp_payloadlen res))
      in if rsp_response res = osdp_RAW
         then cbind (if len > CARD_ID_OFFSET
                     then if len \<le> length (rsp_payload res)
                          then cb (drop CARD_ID_OFFSET (take len (rsp_payload res))) DATA_IS_CARD DATA_OK h
                                 (rd_user_data (readers s h)) s
                          else Inl Out_of_bounds
                     else Inr s) (\<lambda>s.
              Inr (upd_own h (\<lambda>r. r\<lparr>pin_buf_pos := 0\<rparr>) s))
         else if rsp_response res = osdp_KPD
         then cbind (cfold (key_step cb h input_timeout (rsp_payload res)) [0..<len] s) (ack_step cb h input_timeout)
         else if rsp_response res = osdp_ACK then ack_step cb h input_timeout s
         else Inr s)"

text \<open>The recovery after a bad packet: the port is closed and opened again by its path.\<close>

definition reopen_port :: "reader_frame \<Rightarrow> idesco_reader \<Rightarrow> idesco_reader cres" where
  "reopen_port frame r =
     (if fr_readlink frame < 23
      then if fr_readlink frame < 0 then Inl Out_of_bounds
           else Inr (r\<lparr>rd_serial := fr_portsetup frame\<rparr>)
      else Inr r)"

definition get_reader_data :: "bool \<Rightarrow> idesco_reader get_op" where
  "get_reader_data char_signed cb h input_timeout s =
     (let (frame, r) = new_call (readers s h)
      in cbind (send_cmd (\<lambda>p. fill_packet p (rd_address r) osdp_POLL []) (fr_packet frame, r)) (\<lambda>(_, r).
         let (rd, r) = next_read r;
             (ok, answer) = recv_packet (fr_answer frame) rd;
             s = upd_reader h r s
         in if ok
            then cbind (process_packet answer (fr_res frame)) (\<lambda>(_, _, res).
                 handle_answer char_signed cb h input_timeout res s)
            else cbind (reopen_port frame r) (\<lambda>r. Inr (upd_reader h r s))))"

subsection \<open>Links on which the driver is memory safe\<close>

text \<open>Answers on which \<open>process_packet\<close> stays inside its arrays whatever the checksum.\<close>

definition safe_bytes :: "u8 list \<Rightarrow> bool" where
  "safe_bytes bs \<longleftrightarrow> bs = [] \<or> bs ! 0 \<noteq> 0x53 \<or>
     8 \<le> length bs \<and> 2 \<le> frame_len bs \<and> frame_len bs \<le> 64 \<and>
     \<not> (frame_len bs < 8 \<and> bs ! 5 \<in> {osdp_RAW, osdp_COM}) \<and>
     \<not> (bs ! 5 = osdp_KPD \<and> 56 < unat (bs ! 7))"

definition safe_read :: "read_result \<Rightarrow> bool" where
  "safe_read rd \<longleftrightarrow> (case rd of None \<Rightarrow> True | Some bs \<Rightarrow> safe_bytes (take PACKETLEN bs))"

definition frame_ok :: "reader_frame \<Rightarrow> bool" where
  "frame_ok f \<longleftrightarrow> length (pkt_data (fr_packet f)) = 64 \<and> length (pkt_data (fr_answer f)) = 64 \<and>
     length (rsp_payload (fr_res f)) = 64 \<and> unat (rsp_payloadlen (fr_res f)) \<le> 64 \<and> 0 \<le> fr_readlink f"

definition idesco_ok :: "idesco_reader \<Rightarrow> bool" where
  "idesco_ok r \<longleftrightarrow> length (pin_buf r) = 29 \<and> pin_buf_pos r \<le> 28 \<and>
     (\<forall>rd\<in>set (incoming r). safe_read rd) \<and> (\<forall>k. frame_ok (frames r k))"

abbreviation keeps :: "idesco_reader \<Rightarrow> idesco_reader \<Rightarrow> bool" where
  "keeps r r' \<equiv> idesco_ok r' \<and> rd_user_data r' = rd_user_data r"

lemma idesco_ok_upd [simp]:
  "idesco_ok r \<Longrightarrow> idesco_ok (r\<lparr>outgoing := out\<rparr>)" "idesco_ok r \<Longrightarrow> idesco_ok (r\<lparr>calls := n\<rparr>)"
  "idesco_ok r \<Longrightarrow> idesco_ok (r\<lparr>code_timeout := t\<rparr>)" "idesco_ok r \<Longrightarrow> idesco_ok (r\<lparr>rd_serial := sr\<rparr>)"
  "idesco_ok r \<Longrightarrow> idesco_ok (r\<lparr>pin_buf_pos := 0\<rparr>)"
  "idesco_ok r \<Longrightarrow> length b = 29 \<Longrightarrow> idesco_ok (r\<lparr>pin_buf := b\<rparr>)"
  "idesco_ok r \<Longrightarrow> n \<le> 28 \<Longrightarrow> idesco_ok (r\<lparr>pin_buf_pos := n\<rparr>)"
  by (simp_all add: idesco_ok_def)

lemma next_read_ok: "idesco_ok r \<Longrightarrow> keeps r (snd (next_read r)) \<and> safe_read (fst (next_read r))"
  by (auto simp: next_read_def idesco_ok_def safe_read_def split: list.split)

lemma recv_packet_length [simp]:
  "length (pkt_data p) = 64 \<Longrightarrow> length (pkt_data (snd (recv_packet p rd))) = 64"
  by (auto simp: recv_packet_def PACKETLEN_def Let_def split: option.split)

definition good_build :: "(osdp_packet \<Rightarrow> osdp_packet cres) \<Rightarrow> bool" where
  "good_build build \<longleftrightarrow> (\<forall>p. length (pkt_data p) = 64 \<longrightarrow>
     returns (build p) (\<lambda>q. length (pkt_data q) = 64 \<and> unat (pkt_len q) \<le> 64))"

lemma good_fill: "length pl \<le> 56 \<Longrightarrow> good_build (\<lambda>p. fill_packet p a c pl)"
proof -
  assume l: "length pl \<le> 56"
  have "unat (of_nat (length pl + 8) :: u32) = (length pl + 8) mod 2 ^ 32"
    by (simp only: unat_of_nat) simp
  also have "\<dots> = length pl + 8" using l by (intro mod_less) simp
  finally have "unat (of_nat (length pl + 8) :: u32) \<le> 64" using l by simp
  then show ?thesis using l by (simp add: good_build_def fill_packet_eq)
qed

lemma good_ledset: "good_build (\<lambda>p. ledset p a n col blink t)"
  unfolding ledset_def Let_def by (rule good_fill) simp

lemma good_beepset: "good_build (\<lambda>p. beepset p a on off n)"
  unfolding beepset_def by (rule good_fill) simp

definition io_ok :: "idesco_reader \<Rightarrow> io_state \<Rightarrow> bool" where
  "io_ok r0 st \<longleftrightarrow> length (pkt_data (fst st)) = 64 \<and> keeps r0 (snd st)"

lemma send_cmd_ok: "good_build f \<Longrightarrow> io_ok r0 st \<Longrightarrow> returns (send_cmd f st) (io_ok r0)"
  by (auto simp: send_cmd_def good_build_def io_ok_def send_packet_def case_prod_beta elim!: allE elim!: returns_mono)

lemma recv_ack_ok: "io_ok r0 st \<Longrightarrow> io_ok r0 (recv_ack st)"
  using next_read_ok by (auto simp: recv_ack_def io_ok_def case_prod_beta Let_def)

lemma two_cmds_ok: "good_build f \<Longrightarrow> good_build g \<Longrightarrow> io_ok r0 st \<Longrightarrow> returns (two_cmds f g st) (io_ok r0)"
  unfolding two_cmds_def by (simp, intro returns_mono [OF send_cmd_ok] send_cmd_ok recv_ack_ok)

lemma signal_cmds_ok:
  "signal_cmds cs sg a = Some cmds \<Longrightarrow> io_ok r0 st \<Longrightarrow> returns (cmds st) (io_ok r0)"
  unfolding signal_cmds_def Let_def
  by (auto split: if_splits simp: one_cmd_def intro!: two_cmds_ok send_cmd_ok good_ledset good_beepset)

lemma new_call_ok:
  "idesco_ok r \<Longrightarrow> frame_ok (fst (new_call r)) \<and> keeps r (snd (new_call r))"
  by (simp add: new_call_def) (simp add: idesco_ok_def)

lemma reader_signal_ok: "idesco_ok r \<Longrightarrow> returns (reader_signal cs sg r) (keeps r)"
proof -
  assume r: "idesco_ok r"
  obtain f r1 where n: "new_call r = (f, r1)" by fastforce
  then have "io_ok r (fr_packet f, r1)" using new_call_ok [OF r] by (simp add: io_ok_def frame_ok_def)
  then have "returns (cmds (fr_packet f, r1)) (\<lambda>st. keeps r (snd (recv_ack st)))"
    if "signal_cmds cs sg (rd_address r1) = Some cmds" for cmds
    using that recv_ack_ok by (auto elim!: returns_mono [OF signal_cmds_ok] simp: io_ok_def)
  then show ?thesis
    using new_call_ok [OF r] by (simp add: reader_signal_def n split: option.split)
qed

subsection \<open>Polling\<close>

lemma process_packet_keeps_answer:
  assumes "process_packet p r = Inr (b, q, res)" and "length (pkt_data p) = 64" and "length (rsp_payload r) = 64"
    and "unat (rsp_payloadlen r) \<le> 64"
  shows "length (rsp_payload res) = 64 \<and> unat (rsp_payloadlen res) \<le> 64"
proof -
  let ?d = "pkt_data p" and ?L = "frame_len (pkt_data p)"
  have small: "unat (of_nat (?L - 8) :: u8) \<le> 64" if "?L \<le> 64"
  proof -
    have "unat (of_nat (?L - 8) :: u8) \<le> ?L - 8" by (simp only: unat_of_nat mod_less_eq_dividend)
    then show ?thesis using that by simp
  qed
  have e: "process_packet p r = Inr (b, q, res)" by (rule assms(1))
  show ?thesis
    using e small assms(3,4) unfolding process_packet_eq [OF assms(2)] Let_def
    by (auto simp: cres_simps split: if_splits)
qed

lemma safe_answer:
  assumes "safe_read rd" and "recv_packet p rd = (True, q)" and "length (pkt_data p) = 64"
    and "length (rsp_payload r) = 64" and "unat (rsp_payloadlen r) \<le> 64"
  shows "returns (process_packet q r) (\<lambda>(_, _, res). length (rsp_payload res) = 64 \<and> unat (rsp_payloadlen res) \<le> 64)"
proof -
  obtain bs where rd: "rd = Some bs" using assms(2) by (cases rd) (auto simp: recv_packet_def)
  let ?b = "take 64 bs"
  have q: "?b \<noteq> []" "pkt_data q = ?b @ drop (length ?b) (pkt_data p)" "pkt_data q ! 0 = 0x53"
    using assms(2) by (auto simp: rd recv_packet_def PACKETLEN_def Let_def split: if_splits)
  have lq: "length (pkt_data q) = 64" using assms(2,3) recv_packet_length [of p rd] by simp
  have sf: "8 \<le> length ?b \<and> 2 \<le> frame_len ?b \<and> frame_len ?b \<le> 64 \<and>
     \<not> (frame_len ?b < 8 \<and> ?b ! 5 \<in> {osdp_RAW, osdp_COM}) \<and> \<not> (?b ! 5 = osdp_KPD \<and> 56 < unat (?b ! 7))"
    using assms(1) q by (auto simp: rd safe_read_def safe_bytes_def PACKETLEN_def nth_append)
  have n: "pkt_data q ! k = ?b ! k" if "k < 8" for k
  proof -
    have "k < length ?b" using sf that by linarith
    then show ?thesis unfolding q(2) by (rule nth_append_left)
  qed
  have "frame_len (pkt_data q) = frame_len ?b" by (simp add: frame_len_def n del: nth_take)
  then have "process_packet q r \<noteq> Inl f" for f
    using process_packet_faults_iff [OF lq assms(4), of f] sf n [of 5] n [of 7] by (auto simp del: nth_take)
  then obtain b q' res where "process_packet q r = Inr (b, q', res)"
    by (metis obj_sumE prod_cases3)
  then show ?thesis using process_packet_keeps_answer [OF _ lq assms(4,5)] by simp
qed

lemma char_val_small: "unat b \<le> 64 \<Longrightarrow> nat (char_val cs b) = unat b"
proof -
  assume b: "unat b \<le> 64"
  have "uint b = int (unat b)" by simp
  then have u: "0 \<le> uint b" "uint b < 128" using b by linarith+
  then have "sint b = uint b"
    unfolding sint_uint
  proof (intro signed_take_bit_int_eq_self)
    assume "0 \<le> uint b"
    then have "- 128 \<le> uint b" by linarith
    then show "- (2 ^ (LENGTH(8) - Suc 0)) \<le> uint b" by simp
  qed simp
  then show ?thesis by (simp add: char_val_def)
qed

text \<open>
  The rest of a poll works on the whole state. \<open>P\<close> is any property of it that entails usable
  links and survives changes of the reader's private data.
\<close>

definition poll_inv ::
  "(idesco_reader sys \<Rightarrow> bool) \<Rightarrow> nat \<Rightarrow> idesco_reader callback \<Rightarrow> bool" where
  "poll_inv P h cb \<longleftrightarrow>
     (\<forall>s. P s \<longrightarrow> idesco_ok (readers s h)) \<and>
     (\<forall>s r. P s \<longrightarrow> keeps (readers s h) r \<longrightarrow> P (upd_reader h r s)) \<and>
     (\<forall>s data ty md. P s \<longrightarrow> returns (cb data ty md h (rd_user_data (readers s h)) s) P)"

lemmas poll_links = poll_inv_def [THEN iffD1, THEN conjunct1, rule_format]
lemmas poll_own = poll_inv_def [THEN iffD1, THEN conjunct2, THEN conjunct1, rule_format]
lemmas poll_callback = poll_inv_def [THEN iffD1, THEN conjunct2, THEN conjunct2, rule_format]

lemma upd_own_P: "poll_inv P h cb \<Longrightarrow> P s \<Longrightarrow> keeps (readers s h) (f (readers s h)) \<Longrightarrow> P (upd_own h f s)"
  unfolding upd_own_def by (rule poll_own)

lemma clear_pos_P:
  assumes inv: "poll_inv P h cb" and s: "P s"
  shows "P (upd_own h (\<lambda>r. r\<lparr>pin_buf_pos := 0\<rparr>) s)"
  using poll_links [OF inv s] by (intro upd_own_P [OF inv s]) simp

lemma send_pin_P:
  assumes inv: "poll_inv P h cb" and s: "P s"
  shows "returns (send_pin cb h md s) P"
  unfolding send_pin_def Let_def
  by (rule returns_bind [OF poll_callback [OF inv s]]) (simp add: clear_pos_P [OF inv])

lemma put_pin_P:
  assumes "poll_inv P h cb" and "P s"
  shows "returns (put_pin h c s) (\<lambda>t. P t \<and> pin_buf_pos (readers t h) = pin_buf_pos (readers s h))"
proof -
  have ok: "idesco_ok (readers s h)" using assms by (rule poll_links)
  then have l: "length (pin_buf (readers s h)) = 29" "pin_buf_pos (readers s h) \<le> 28"
    by (simp_all add: idesco_ok_def)
  have "P (upd_reader h (readers s h\<lparr>pin_buf := (pin_buf (readers s h))[pin_buf_pos (readers s h) := c]\<rparr>) s)"
    using ok l by (intro poll_own [OF assms]) simp
  then show ?thesis
    using l by (simp add: put_pin_def store_def upd_own_def)
qed

lemma key_step_P:
  assumes inv: "poll_inv P h cb" and s: "P s" and i: "i < length payload"
  shows "returns (key_step cb h tmo payload i s) P"
proof -
  have fin: "P (upd_own h (\<lambda>r. r\<lparr>code_timeout := tmo\<rparr>) t)" if "P t" for t
    using poll_links [OF inv that] by (intro upd_own_P [OF inv that]) simp
  have put: "returns (cbind (put_pin h c t) (\<lambda>t. Inr (upd_own h (\<lambda>r. r\<lparr>pin_buf_pos := Suc (pin_buf_pos r)\<rparr>) t))) P"
    if "P t \<and> pin_buf_pos (readers t h) < 28" for t c
  proof (rule returns_bind [OF put_pin_P [OF inv]])
    show "P t" using that by simp
    show "returns (Inr (upd_own h (\<lambda>r. r\<lparr>pin_buf_pos := Suc (pin_buf_pos r)\<rparr>) u)) P"
      if u: "P u \<and> pin_buf_pos (readers u h) = pin_buf_pos (readers t h)" for u
    proof -
      have "idesco_ok (readers u h)" using u by (intro poll_links [OF inv]) simp
      then have "P (upd_own h (\<lambda>r. r\<lparr>pin_buf_pos := Suc (pin_buf_pos r)\<rparr>) u)"
        using u \<open>P t \<and> pin_buf_pos (readers t h) < 28\<close> by (intro upd_own_P [OF inv]) simp_all
      then show ?thesis by simp
    qed
  qed
  have room: "returns (if pin_buf_pos (readers s h) = IDESCO_MAX_PIN_LEN then send_pin cb h DATA_OUT_OF_BUF s else Inr s)
      (\<lambda>t. P t \<and> pin_buf_pos (readers t h) < 28)"
  proof (rule returns_if)
    show "returns (send_pin cb h DATA_OUT_OF_BUF s) (\<lambda>t. P t \<and> pin_buf_pos (readers t h) < 28)"
      using send_pin_P [OF inv s, of DATA_OUT_OF_BUF]
      by (auto simp: send_pin_def Let_def upd_own_def elim!: returns_mono)
    show "pin_buf_pos (readers s h) \<noteq> IDESCO_MAX_PIN_LEN \<Longrightarrow> returns (Inr s) (\<lambda>t. P t \<and> pin_buf_pos (readers t h) < 28)"
      using s poll_links [OF inv s] by (simp add: IDESCO_MAX_PIN_LEN_def idesco_ok_def)
  qed
  have enter: "returns (cbind (put_pin h 0 s) (send_pin cb h DATA_OK)) P"
    by (rule returns_bind [OF put_pin_P [OF inv s]]) (simp add: send_pin_P [OF inv])
  have clear: "returns (Inr (upd_own h (\<lambda>r. r\<lparr>pin_buf_pos := 0\<rparr>) s)) P"
    using clear_pos_P [OF inv s] by simp
  have key: "returns (if c = 0x7f then Inr (upd_own h (\<lambda>r. r\<lparr>pin_buf_pos := 0\<rparr>) s)
            else if c = 0x0d then cbind (put_pin h 0 s) (send_pin cb h DATA_OK)
            else cbind (if pin_buf_pos (readers s h) = IDESCO_MAX_PIN_LEN then send_pin cb h DATA_OUT_OF_BUF s
                        else Inr s) (\<lambda>s.
                 cbind (put_pin h c s) (\<lambda>s.
                 Inr (upd_own h (\<lambda>r. r\<lparr>pin_buf_pos := Suc (pin_buf_pos r)\<rparr>) s)))) P" for c
  proof (intro returns_if clear enter)
    show "returns (cbind (if pin_buf_pos (readers s h) = IDESCO_MAX_PIN_LEN then send_pin cb h DATA_OUT_OF_BUF s
                        else Inr s) (\<lambda>s.
                 cbind (put_pin h c s) (\<lambda>s.
                 Inr (upd_own h (\<lambda>r. r\<lparr>pin_buf_pos := Suc (pin_buf_pos r)\<rparr>) s)))) P"
      by (rule returns_bind [OF room put])
  qed
  show ?thesis
    unfolding key_step_def fetch_def if_P [OF i] cbind_simps
    by (rule returns_bind [OF key]) (simp add: fin)
qed

lemma ack_step_P:
  assumes inv: "poll_inv P h cb" and s: "P s"
  shows "returns (ack_step cb h tmo s) P"
proof -
  have "P (upd_own h (\<lambda>r. r\<lparr>code_timeout := code_timeout r - 1\<rparr>) s)"
    using poll_links [OF inv s] by (intro upd_own_P [OF inv s]) simp
  then show ?thesis
    using s send_pin_P [OF inv s] by (simp add: ack_step_def Let_def)
qed

lemma handle_answer_P:
  assumes inv: "poll_inv P h cb" and s: "P s" and res: "length (rsp_payload res) = 64" "unat (rsp_payloadlen res) \<le> 64"
  shows "returns (handle_answer cs cb h tmo res s) P"
proof -
  have keys: "returns (cfold (key_step cb h tmo (rsp_payload res)) [0..<n] s) P" if "n \<le> 64" for n
    using that res s by (intro returns_cfold key_step_P [OF inv]) auto
  note clear = clear_pos_P [OF inv]
  show ?thesis
    unfolding handle_answer_def Let_def char_val_small [OF res(2)]
  proof (intro returns_if)
    show "returns (cbind (cfold (key_step cb h tmo (rsp_payload res)) [0..<unat (rsp_payloadlen res)] s) (ack_step cb h tmo)) P"
      by (rule returns_bind [OF keys [OF res(2)]]) (rule ack_step_P [OF inv])
    show "returns (cbind (if unat (rsp_payloadlen res) > CARD_ID_OFFSET
                     then if unat (rsp_payloadlen res) \<le> length (rsp_payload res)
                          then cb (drop CARD_ID_OFFSET (take (unat (rsp_payloadlen res)) (rsp_payload res))) DATA_IS_CARD DATA_OK h
                                 (rd_user_data (readers s h)) s
                          else Inl Out_of_bounds
                     else Inr s) (\<lambda>s. Inr (upd_own h (\<lambda>r. r\<lparr>pin_buf_pos := 0\<rparr>) s))) P"
    proof (rule returns_bind [where P = P])
      show "returns (if unat (rsp_payloadlen res) > CARD_ID_OFFSET
                     then if unat (rsp_payloadlen res) \<le> length (rsp_payload res)
                          then cb (drop CARD_ID_OFFSET (take (unat (rsp_payloadlen res)) (rsp_payload res))) DATA_IS_CARD DATA_OK h
                                 (rd_user_data (readers s h)) s
                          else Inl Out_of_bounds
                     else Inr s) P"
        using s res poll_callback [OF inv s] by simp
    qed (simp add: clear)
  qed (use s ack_step_P [OF inv s] in simp_all)
qed

lemma get_reader_data_P:
  assumes inv: "poll_inv P h cb" and s: "P s"
  shows "returns (get_reader_data cs cb h tmo s) P"
proof -
  let ?r = "readers s h"
  obtain f r1 where n: "new_call ?r = (f, r1)" by fastforce
  have r1: "frame_ok f" "keeps ?r r1" using new_call_ok [OF poll_links [OF inv s]] by (simp_all add: n)
  have "returns (send_cmd (\<lambda>p. fill_packet p (rd_address r1) osdp_POLL []) (fr_packet f, r1)) (io_ok ?r)"
    using r1 by (intro send_cmd_ok good_fill) (simp_all add: io_ok_def frame_ok_def)
  then obtain p r2 where snd: "send_cmd (\<lambda>p. fill_packet p (rd_address r1) osdp_POLL []) (fr_packet f, r1) = Inr (p, r2)"
    and r2: "keeps ?r r2" by (auto simp: returns_iff io_ok_def)
  obtain rd r3 where rd: "next_read r2 = (rd, r3)" by fastforce
  have r3: "keeps ?r r3" "safe_read rd" using next_read_ok [of r2] r2 by (simp_all add: rd)
  obtain ok ans where rc: "recv_packet (fr_answer f) rd = (ok, ans)" by fastforce
  let ?s = "upd_reader h r3 s"
  have s': "P ?s" using poll_own [OF inv s r3(1)] .
  show ?thesis
  proof (cases ok)
    case True
    have "returns (process_packet ans (fr_res f)) (\<lambda>(_, _, res). length (rsp_payload res) = 64 \<and> unat (rsp_payloadlen res) \<le> 64)"
      using r3(2) rc r1(1) True by (intro safe_answer [where p = "fr_answer f"]) (auto simp: frame_ok_def)
    then have "returns (process_packet ans (fr_res f)) (\<lambda>x. returns (handle_answer cs cb h tmo (snd (snd x)) ?s) P)"
      by (rule returns_mono) (auto intro: handle_answer_P [OF inv s'])
    then show ?thesis
      using True by (simp add: get_reader_data_def n snd rd rc case_prod_beta Let_def)
  next
    case False
    have "returns (reopen_port f r3) (\<lambda>r. P (upd_reader h r ?s))"
      using r1(1) r3(1) poll_own [OF inv s'] by (auto simp: reopen_port_def frame_ok_def)
    then show ?thesis
      using False by (simp add: get_reader_data_def n snd rd rc case_prod_beta Let_def)
  qed
qed

subsection \<open>The driver fulfils the contract\<close>

interpretation idesco: reader_driver "reader_signal cs" idesco_ok rd_user_data clear_reader_data "get_reader_data cs"
proof
  show "returns (reader_signal cs sg r) (\<lambda>r'. idesco_ok r' \<and> rd_user_data r' = rd_user_data r)" if "idesco_ok r" for r sg
    using that by (rule reader_signal_ok)
  show "idesco_ok (clear_reader_data r) \<and> rd_user_data (clear_reader_data r) = rd_user_data r" if "idesco_ok r" for r
    using that by (simp add: clear_reader_data_def)
  show "returns (get_reader_data cs cb h tmo s) P"
    if "P s" "\<And>t. P t \<Longrightarrow> \<forall>k. idesco_ok (readers t k)"
      "\<And>t r. P t \<Longrightarrow> idesco_ok r \<Longrightarrow> rd_user_data r = rd_user_data (readers t h) \<Longrightarrow> P (upd_reader h r t)"
      "\<And>data ty md t. P t \<Longrightarrow> returns (cb data ty md h (rd_user_data (readers t h)) t) P"
    for P s h cb tmo
    using that by (intro get_reader_data_P) (auto simp: poll_inv_def)
qed

subsection \<open>Entering a PIN\<close>

lemma cbind_cfold_Nil [simp]: "cbind r (cfold f []) = r"
  by (cases r) simp_all

lemma upd_own_readers [simp]: "readers (upd_own h f s) h = f (readers s h)"
  by (simp add: upd_own_def)

lemma upd_own_upd_own: "upd_own h f (upd_own h g s) = upd_own h (\<lambda>r. f (g r)) s"
  by (simp add: upd_own_def upd_reader_def)

lemma key_step_digit:
  assumes "payload ! i = c" "i < length payload" "c \<noteq> 0x7f" "c \<noteq> 0x0d"
    and "pin_buf_pos (readers s h) < 28" "length (pin_buf (readers s h)) = 29"
  shows "key_step cb h tmo payload i s = Inr (upd_own h (\<lambda>r. r\<lparr>pin_buf := (pin_buf r)[pin_buf_pos r := c],
    pin_buf_pos := Suc (pin_buf_pos r), code_timeout := tmo\<rparr>) s)"
  using assms by (simp add: key_step_def fetch_def put_pin_def store_def IDESCO_MAX_PIN_LEN_def) (simp add: upd_own_def upd_reader_def)

definition after_keys :: "int \<Rightarrow> u8 list \<Rightarrow> idesco_reader \<Rightarrow> idesco_reader" where
  "after_keys tmo ks r = (if ks = [] then r else r\<lparr>pin_buf := ks @ drop (length ks) (pin_buf r), pin_buf_pos := length ks, code_timeout := tmo\<rparr>)"

lemma keys_typed:
  assumes "take k payload = ks" "k \<le> length payload" "k \<le> 28" "0x7f \<notin> set ks" "0x0d \<notin> set ks"
    and "pin_buf_pos (readers s h) = 0" "length (pin_buf (readers s h)) = 29"
  shows "cfold (key_step cb h tmo payload) [0..<k] s = Inr (upd_own h (after_keys tmo ks) s)"
  using assms(1-5)
proof (induction k arbitrary: ks)
  case 0
  then show ?case by (simp add: upd_own_def after_keys_def upd_reader_def)
next
  case (Suc k)
  let ?ks = "take k payload"
  have ks: "ks = ?ks @ [payload ! k]" using Suc.prems by (simp add: take_Suc_conv_app_nth)
  have IH: "cfold (key_step cb h tmo payload) [0..<k] s = Inr (upd_own h (after_keys tmo ?ks) s)"
    using Suc.prems ks by (intro Suc.IH) auto
  let ?t = "upd_own h (after_keys tmo ?ks) s"
  have len: "length ?ks = k" using Suc.prems by simp
  have pos: "pin_buf_pos (readers ?t h) = k" "length (pin_buf (readers ?t h)) = 29"
    using assms(6,7) Suc.prems len by (auto simp: after_keys_def)
  have step: "key_step cb h tmo payload k ?t = Inr (upd_own h (\<lambda>r. r\<lparr>pin_buf := (pin_buf r)[pin_buf_pos r := payload ! k],
    pin_buf_pos := Suc (pin_buf_pos r), code_timeout := tmo\<rparr>) ?t)"
    using Suc.prems ks pos by (intro key_step_digit) auto
  have ne: "ks \<noteq> []" using ks by simp
  have "(drop k (pin_buf (readers s h)))[0 := payload ! k] = payload ! k # drop (Suc k) (pin_buf (readers s h))"
    using Suc.prems assms(7) by (simp add: Cons_nth_drop_Suc [symmetric])
  then have upd: "(pin_buf (readers ?t h))[pin_buf_pos (readers ?t h) := payload ! k] = ks @ drop (Suc k) (pin_buf (readers s h))"
    using pos(1) len assms(6) unfolding ks by (auto simp: after_keys_def list_update_append)
  have "upd_own h (\<lambda>r. r\<lparr>pin_buf := (pin_buf r)[pin_buf_pos r := payload ! k],
    pin_buf_pos := Suc (pin_buf_pos r), code_timeout := tmo\<rparr>) ?t = upd_own h (after_keys tmo ks) s"
    using upd pos(1) ne ks len by (simp add: upd_own_def upd_reader_def) (auto simp: after_keys_def)
  then show ?case using IH step by (simp add: cfold_append)
qed

lemma pin_entry:
  assumes "payload = ks @ 0x0d # rest" and "length ks \<le> 28" "0x7f \<notin> set ks" "0x0d \<notin> set ks"
    and "pin_buf_pos (readers s h) = 0" "length (pin_buf (readers s h)) = 29"
  shows "\<exists>r. rd_user_data r = rd_user_data (readers s h) \<and> (idesco_ok (readers s h) \<longrightarrow> idesco_ok r) \<and>
    cfold (key_step cb h tmo payload) [0..<Suc (length ks)] s =
      cbind (cb ks DATA_IS_PIN DATA_OK h (rd_user_data (readers s h)) (upd_reader h r s))
        (\<lambda>t. Inr (upd_own h (\<lambda>r. r\<lparr>pin_buf_pos := 0, code_timeout := tmo\<rparr>) t))"
proof -
  let ?t = "upd_own h (after_keys tmo ks) s" and ?b = "pin_buf (after_keys tmo ks (readers s h))"
  have typed: "cfold (key_step cb h tmo payload) [0..<length ks] s = Inr ?t"
    using assms by (intro keys_typed) simp_all
  have b: "length ?b = 29" "take (length ks) ?b = ks" "pin_buf_pos (after_keys tmo ks (readers s h)) = length ks"
    using assms(2,5,6) by (auto simp: after_keys_def)
  let ?r = "after_keys tmo ks (readers s h)\<lparr>pin_buf := ?b[length ks := 0]\<rparr>"
  have u: "rd_user_data ?r = rd_user_data (readers s h)" "idesco_ok (readers s h) \<longrightarrow> idesco_ok ?r"
    using b(1) assms(2) by (simp_all add: after_keys_def idesco_ok_def)
  have put: "put_pin h 0 ?t = Inr (upd_reader h ?r s)"
    using b assms(2) by (simp add: put_pin_def store_def) (simp add: upd_own_def upd_reader_def)
  have "key_step cb h tmo payload (length ks) ?t =
      cbind (cb ks DATA_IS_PIN DATA_OK h (rd_user_data (readers s h)) (upd_reader h ?r s))
        (\<lambda>t. Inr (upd_own h (\<lambda>r. r\<lparr>pin_buf_pos := 0, code_timeout := tmo\<rparr>) t))"
    using put b(2,3) u assms(1)
    by (cases "cb ks DATA_IS_PIN DATA_OK h (rd_user_data (readers s h)) (upd_reader h ?r s)")
      (simp_all add: key_step_def fetch_def send_pin_def upd_own_upd_own)
  then show ?thesis using typed u by (auto simp: cfold_append intro!: exI [of _ ?r])
qed

text \<open>
  Property C19. PIN entry: at most 28 keys other than cancel and enter, followed by enter, hand
  the controller exactly these keys as a PIN, and leave the buffer empty.
\<close>

theorem pin_entry_delivers:
  assumes "payload = ks @ 0x0d # rest" and "length ks \<le> 28" "0x7f \<notin> set ks" "0x0d \<notin> set ks"
    and "pin_buf_pos (readers s h) = 0" "length (pin_buf (readers s h)) = 29"
  shows "\<exists>r. rd_user_data r = rd_user_data (readers s h) \<and>
    cfold (key_step cb h tmo payload) [0..<Suc (length ks)] s =
      cbind (cb ks DATA_IS_PIN DATA_OK h (rd_user_data (readers s h)) (upd_reader h r s))
        (\<lambda>t. Inr (upd_own h (\<lambda>r. r\<lparr>pin_buf_pos := 0, code_timeout := tmo\<rparr>) t))"
  using pin_entry [OF assms] by blast

lemma send_cmd_sends:
  assumes "good_build f" and "length (pkt_data p) = 64"
  obtains q b where "send_cmd f (p, r) = Inr (q, r\<lparr>outgoing := outgoing r @ [b]\<rparr>)" "length (pkt_data q) = 64"
proof -
  obtain q where q: "f p = Inr q" "length (pkt_data q) = 64" "unat (pkt_len q) \<le> 64"
    using assms by (auto simp: good_build_def returns_iff)
  then show ?thesis
    using that [of q "take (unat (pkt_len q)) (pkt_data q)"] by (simp add: send_cmd_def send_packet_def)
qed

subsection \<open>A poll that is answered\<close>

lemma answered_poll:
  assumes "idesco_ok (readers s h)" and "incoming (readers s h) = rd # rest" and "frame = frames (readers s h) (calls (readers s h))"
    and "recv_packet (fr_answer frame) rd = (True, ans)" and "process_packet ans (fr_res frame) = Inr (b, q, res)"
  obtains r where "keeps (readers s h) r" "pin_buf_pos r = pin_buf_pos (readers s h)" "incoming r = rest"
    "get_reader_data cs cb h tmo s = handle_answer cs cb h tmo res (upd_reader h r s)"
proof -
  let ?r = "readers s h"
  let ?r1 = "?r\<lparr>calls := Suc (calls ?r)\<rparr>"
  have n: "new_call ?r = (frame, ?r1)" using assms(3) by (simp add: new_call_def)
  have f: "length (pkt_data (fr_packet frame)) = 64" using assms(1,3) by (simp add: idesco_ok_def frame_ok_def)
  have gb: "good_build (\<lambda>p. fill_packet p (rd_address ?r) osdp_POLL [])" by (rule good_fill) simp
  obtain p b where snd: "send_cmd (\<lambda>p. fill_packet p (rd_address ?r) osdp_POLL []) (fr_packet frame, ?r1) =
      Inr (p, ?r1\<lparr>outgoing := outgoing ?r @ [b]\<rparr>)"
    by (rule send_cmd_sends [OF gb f, of ?r1]) (rule that, simp)
  let ?r' = "?r1\<lparr>outgoing := outgoing ?r @ [b], incoming := rest\<rparr>"
  have "idesco_ok ?r'" using assms(1,2) by (simp add: idesco_ok_def)
  moreover have "get_reader_data cs cb h tmo s = handle_answer cs cb h tmo res (upd_reader h ?r' s)"
    using assms(2,4,5) by (simp add: get_reader_data_def n snd next_read_def Let_def)
  ultimately show ?thesis by (intro that [of ?r']) simp_all
qed

lemma handle_card:
  assumes "rsp_response res = osdp_RAW" and "4 < unat (rsp_payloadlen res)" and "unat (rsp_payloadlen res) \<le> 64"
    and "length (rsp_payload res) = 64"
  shows "handle_answer cs cb h tmo res s =
    cbind (cb (drop 4 (take (unat (rsp_payloadlen res)) (rsp_payload res))) DATA_IS_CARD DATA_OK h (rd_user_data (readers s h)) s)
      (\<lambda>t. Inr (upd_own h (\<lambda>r. r\<lparr>pin_buf_pos := 0\<rparr>) t))"
  using assms by (simp add: handle_answer_def char_val_small CARD_ID_OFFSET_def Let_def)

subsection \<open>What a signal consumes\<close>

lemma recv_ack_incoming: "incoming (snd (recv_ack st)) = tl (incoming (snd st))"
  by (cases st) (simp add: recv_ack_def next_read_def Let_def split: list.split)

lemma send_cmd_incoming: "send_cmd f st = Inr st' \<Longrightarrow> incoming (snd st') = incoming (snd st)"
  by (cases st) (auto simp: send_cmd_def cres_simps)

lemma two_cmds_incoming: "two_cmds f g st = Inr st' \<Longrightarrow> incoming (snd st') = tl (incoming (snd st))"
  by (auto simp: two_cmds_def cres_simps recv_ack_incoming dest!: send_cmd_incoming)

lemma signal_pin_incoming: "reader_signal cs SIGNAL_PIN r = Inr r' \<Longrightarrow> incoming r' = tl (tl (incoming r))"
proof -
  have "char_val cs SIGNAL_PIN = 0x41" by (cases cs) (simp_all add: char_val_def)
  then have "signal_cmds cs SIGNAL_PIN a = Some (two_cmds (\<lambda>p. ledset p a 1 AMBER True 12) (\<lambda>p. beepset p a 1 1 2))" for a
    by (simp add: signal_cmds_def)
  then show "reader_signal cs SIGNAL_PIN r = Inr r' \<Longrightarrow> incoming r' = tl (tl (incoming r))"
    by (auto simp: reader_signal_def new_call_def cres_simps recv_ack_incoming dest!: two_cmds_incoming)
qed

definition echo_callback :: "idesco_reader callback" where
  "echo_callback data ty md h i s = Inr (emit (map (Signal h) data) s)"

definition quiet_frame :: reader_frame where
  "quiet_frame = \<lparr>fr_packet = \<lparr>pkt_len = 0, pkt_data = replicate 64 0\<rparr>, fr_answer = \<lparr>pkt_len = 0, pkt_data = replicate 64 0\<rparr>,
     fr_res = \<lparr>rsp_response = osdp_RAW, rsp_payloadlen = 6, rsp_payload = [0, 0, 32, 0, 0xa9, 0x3c] @ replicate 58 0\<rparr>,
     fr_readlink = 23, fr_portsetup = 3\<rparr>"

definition quiet_link :: idesco_reader where
  "quiet_link = \<lparr>rd_serial = 3, use_rs485_te = False, rd_address = 0, pin_buf = replicate 29 0, pin_buf_pos = 0,
     code_timeout = 0, rd_user_data = 0, incoming = [Some [0x53, 0x80, 8, 0, 4, osdp_ACK, 1, 2]], outgoing = [],
     frames = (\<lambda>_. quiet_frame), calls = 0\<rparr>"

definition quiet_sys :: "idesco_reader sys" where
  "quiet_sys = \<lparr>doors = [], readers = (\<lambda>_. quiet_link), trace = []\<rparr>"

theorem pin_entry_delivers_witness:
  "\<exists>t. cfold (key_step echo_callback 0 0 [0x31, 0x37, 0x0d]) [0..<3] quiet_sys = Inr t \<and> trace t = [Signal 0 0x37, Signal 0 0x31]"
proof -
  have "[0..<3] = [0..<Suc (length [0x31, 0x37 :: u8])]" by (simp add: numeral_3_eq_3)
  then show ?thesis
    using pin_entry_delivers [of "[0x31, 0x37, 0x0d]" "[0x31, 0x37]" "[]" quiet_sys 0 echo_callback 0]
    by (auto simp: quiet_sys_def quiet_link_def echo_callback_def upd_own_def)
qed

text \<open>
  Property C30. An answer that \<open>process_packet\<close> rejects is handled all the same: its result is
  ignored, and the switch works on the response left on the stack, which the rejection did not
  touch. If the stack still holds the card of an earlier answer, that card is handed to the
  controller again.
\<close>

theorem rejected_answer_replays:
  assumes "idesco_ok (readers s h)" and "incoming (readers s h) = rd # rest" and "frame = frames (readers s h) (calls (readers s h))"
    and "recv_packet (fr_answer frame) rd = (True, ans)" and "process_packet ans (fr_res frame) = Inr (False, q, fr_res frame)"
    and "rsp_response (fr_res frame) = osdp_RAW" and "4 < unat (rsp_payloadlen (fr_res frame))"
  shows "\<exists>r. rd_user_data r = rd_user_data (readers s h) \<and> get_reader_data cs cb h tmo s =
    cbind (cb (drop 4 (take (unat (rsp_payloadlen (fr_res frame))) (rsp_payload (fr_res frame)))) DATA_IS_CARD DATA_OK h
        (rd_user_data (readers s h)) (upd_reader h r s))
      (\<lambda>t. Inr (upd_own h (\<lambda>r. r\<lparr>pin_buf_pos := 0\<rparr>) t))"
proof -
  have f: "frame_ok frame" using assms(1,3) by (simp add: idesco_ok_def)
  obtain r where r: "keeps (readers s h) r"
    "get_reader_data cs cb h tmo s = handle_answer cs cb h tmo (fr_res frame) (upd_reader h r s)"
    by (rule answered_poll [OF assms(1-5)])
  have "handle_answer cs cb h tmo (fr_res frame) (upd_reader h r s) =
    cbind (cb (drop 4 (take (unat (rsp_payloadlen (fr_res frame))) (rsp_payload (fr_res frame)))) DATA_IS_CARD DATA_OK h
        (rd_user_data (readers (upd_reader h r s) h)) (upd_reader h r s))
      (\<lambda>t. Inr (upd_own h (\<lambda>r. r\<lparr>pin_buf_pos := 0\<rparr>) t))"
    using f by (intro handle_card [OF assms(6,7)]) (simp_all add: frame_ok_def)
  then show ?thesis using r by auto
qed

theorem rejected_answer_replays_witness:
  "\<exists>t. get_reader_data True echo_callback 0 0 quiet_sys = Inr t \<and> trace t = [Signal 0 0x3c, Signal 0 0xa9]"
proof -
  let ?bs = "[0x53, 0x80, 8, 0, 4, osdp_ACK, 1, 2]"
  let ?ans = "\<lparr>pkt_len = 8, pkt_data = ?bs @ replicate 56 0\<rparr>"
  have ok: "idesco_ok (readers quiet_sys 0)"
    by (simp add: idesco_ok_def quiet_sys_def quiet_link_def frame_ok_def quiet_frame_def safe_read_def safe_bytes_def PACKETLEN_def frame_len_def)
  have rc: "recv_packet (fr_answer quiet_frame) (Some ?bs) = (True, ?ans)"
    by (simp add: recv_packet_def quiet_frame_def PACKETLEN_def)
  have q: "process_packet ?ans (fr_res quiet_frame) = Inr (False, ?ans, fr_res quiet_frame)"
    by code_simp
  have f: "rsp_response (fr_res quiet_frame) = osdp_RAW" "rsp_payloadlen (fr_res quiet_frame) = 6"
    "rsp_payload (fr_res quiet_frame) = [0, 0, 32, 0, 0xa9, 0x3c] @ replicate 58 0" by (simp_all add: quiet_frame_def)
  have i: "incoming (readers quiet_sys 0) = Some ?bs # []" "quiet_frame = frames (readers quiet_sys 0) (calls (readers quiet_sys 0))"
    by (simp_all add: quiet_sys_def quiet_link_def)
  obtain r where "get_reader_data True echo_callback 0 0 quiet_sys =
    cbind (echo_callback (drop 4 (take (unat (rsp_payloadlen (fr_res quiet_frame))) (rsp_payload (fr_res quiet_frame)))) DATA_IS_CARD DATA_OK 0
        (rd_user_data (readers quiet_sys 0)) (upd_reader 0 r quiet_sys))
      (\<lambda>t. Inr (upd_own 0 (\<lambda>r. r\<lparr>pin_buf_pos := 0\<rparr>) t))"
    using rejected_answer_replays [OF ok i rc q f(1), of True echo_callback 0] f(2) by auto
  then show ?thesis by (simp add: f echo_callback_def upd_own_def) (simp add: quiet_sys_def)
qed

text \<open>
  The main loop polls with \<open>input_timeout\<close> 0; then an unfinished PIN never times
  out: neither the controller is told nor is a key dropped.
\<close>

lemma pin_entry_never_times_out:
  "\<exists>t. (\<forall>cb. ack_step cb h 0 s = Inr t) \<and> pin_buf (readers t h) = pin_buf (readers s h) \<and>
     pin_buf_pos (readers t h) = pin_buf_pos (readers s h) \<and> trace t = trace s"
  by (intro exI [of _ "if 0 < pin_buf_pos (readers s h) \<and> 0 < code_timeout (readers s h)
      then upd_own h (\<lambda>r. r\<lparr>code_timeout := code_timeout r - 1\<rparr>) s else s"])
    (simp add: ack_step_def upd_own_def Let_def)

text \<open>
  Property C35. Where \<open>char\<close> is signed, the signals \<open>SIGNAL_BLOCKED\<close> and \<open>SIGNAL_UNBLOCKED\<close>
  match no case of the switch and nothing is sent; where it is unsigned, two packets are sent.
\<close>

theorem blocked_signal_sign:
  assumes "idesco_ok r" and "sg = SIGNAL_BLOCKED \<or> sg = SIGNAL_UNBLOCKED"
  shows "(\<exists>r'. reader_signal True sg r = Inr r' \<and> outgoing r' = outgoing r) \<and>
    (\<exists>r' p q. reader_signal False sg r = Inr r' \<and> outgoing r' = outgoing r @ [p, q])"
proof
  have "signal_cmds True sg a = None" for a using assms(2) by (auto simp: signal_cmds_def char_val_def)
  then show "\<exists>r'. reader_signal True sg r = Inr r' \<and> outgoing r' = outgoing r"
    by (simp add: reader_signal_def new_call_def)
  have two: "\<exists>r' p q. cbind (two_cmds f g (pk, ra)) (\<lambda>st. Inr (snd (recv_ack st))) = Inr r' \<and> outgoing r' = outgoing ra @ [p, q]"
    if fg: "good_build f" "good_build g" "length (pkt_data pk) = 64" for f g pk ra
  proof -
    have recv: "length (pkt_data (fst (recv_ack (pk, r1)))) = 64 \<and> outgoing (snd (recv_ack (pk, r1))) = outgoing r1"
      if "length (pkt_data pk) = 64" for pk r1
      using that by (auto simp: recv_ack_def next_read_def Let_def split: list.split)
    obtain p1 b1 where 1: "send_cmd f (pk, ra) = Inr (p1, ra\<lparr>outgoing := outgoing ra @ [b1]\<rparr>)" "length (pkt_data p1) = 64"
      by (rule send_cmd_sends [OF fg(1,3)])
    obtain p2 r2 where 2: "recv_ack (p1, ra\<lparr>outgoing := outgoing ra @ [b1]\<rparr>) = (p2, r2)" by fastforce
    have r2: "length (pkt_data p2) = 64" "outgoing r2 = outgoing ra @ [b1]" using recv [OF 1(2), of "ra\<lparr>outgoing := outgoing ra @ [b1]\<rparr>"] 2 by simp_all
    obtain p3 b3 where 3: "send_cmd g (p2, r2) = Inr (p3, r2\<lparr>outgoing := outgoing r2 @ [b3]\<rparr>)" "length (pkt_data p3) = 64"
      by (rule send_cmd_sends [OF fg(2) r2(1)])
    show ?thesis using recv [OF 3(2)] r2(2) by (simp add: two_cmds_def 1 2 3)
  qed
  have L: "length (pkt_data (fr_packet (frames r (calls r)))) = 64" using assms(1) by (simp add: idesco_ok_def frame_ok_def)
  then show "\<exists>r' p q. reader_signal False sg r = Inr r' \<and> outgoing r' = outgoing r @ [p, q]"
    using assms(2) two [OF good_ledset good_ledset L, where ra = "r\<lparr>calls := Suc (calls r)\<rparr>"]
    by (auto simp: reader_signal_def new_call_def signal_cmds_def char_val_def)
qed

theorem blocked_signal_sign_witness:
  "\<exists>r'. reader_signal True SIGNAL_BLOCKED quiet_link = Inr r' \<and> outgoing r' = []"
proof -
  have "idesco_ok quiet_link"
    by (simp add: idesco_ok_def quiet_link_def frame_ok_def quiet_frame_def safe_read_def safe_bytes_def PACKETLEN_def frame_len_def)
  then show ?thesis using blocked_signal_sign [of quiet_link SIGNAL_BLOCKED] by (simp add: quiet_link_def)
qed

end
