(* ===== verification/Controller.thy ===== *)
theory Controller
  imports Reader_Idesco
begin

text \<open>
  The linked program: the door controller with the OSDP driver, any number of cycles of its main
  loop, a concrete airlock of two doors, and the properties of the whole.
\<close>

subsection \<open>Cycles of the linked program\<close>

text \<open>\<open>mainLoop\<close> with the OSDP driver, and any number of cycles with their databases and inputs.\<close>

definition controller_cycle ::
  "bool \<Rightarrow> auth_db \<Rightarrow> gpio_result \<Rightarrow> idesco_reader sys \<Rightarrow> idesco_reader sys cres" where
  "controller_cycle cs db rd s = mainLoop (reader_signal cs) clear_reader_data (get_reader_data cs) db rd s"

definition controller_cycles ::
  "bool \<Rightarrow> (auth_db \<times> gpio_result) list \<Rightarrow> idesco_reader sys \<Rightarrow> idesco_reader sys cres" where
  "controller_cycles cs ins s = cfold (\<lambda>(db, rd). controller_cycle cs db rd) ins s"

abbreviation good :: "idesco_reader sys \<Rightarrow> bool" where
  "good s \<equiv> wf_sys idesco_ok rd_user_data s \<and> creds_sys s"

lemma controller_cycle_ok:
  assumes "good s" and "db_sys_ok db s"
  shows "returns (controller_cycle cs db rd s)
    (\<lambda>t. good t \<and> static_sys t = static_sys s \<and> main_run [0..<length (doors s)] s t)"
  unfolding controller_cycle_def using assms by (intro returns_mono [OF idesco.mainLoop_ok]) auto

lemma controller_cycles_ok:
  assumes "good s" and "\<forall>(db, rd)\<in>set ins. db_sys_ok db s"
    and "P s" and "\<And>t u. P t \<Longrightarrow> good t \<Longrightarrow> static_sys t = static_sys s \<Longrightarrow> main_run [0..<length (doors t)] t u \<Longrightarrow> P u"
  shows "returns (controller_cycles cs ins s) (\<lambda>t. good t \<and> static_sys t = static_sys s \<and> P t)"
  unfolding controller_cycles_def
proof (rule returns_cfold)
  fix x t assume x: "x \<in> set ins" and t: "good t \<and> static_sys t = static_sys s \<and> P t"
  obtain db rd where [simp]: "x = (db, rd)" by fastforce
  have "db_sys_ok db t" using x t assms(2) db_sys_ok_static [of t s db] by auto
  then show "returns ((case x of (db, rd) \<Rightarrow> controller_cycle cs db rd) t) (\<lambda>t. good t \<and> static_sys t = static_sys s \<and> P t)"
    using t by (auto intro!: returns_mono [OF controller_cycle_ok] intro: assms(4))
qed (use assms in simp)

lemma timer_step_trace: "timer_step i s t \<Longrightarrow> \<exists>xs. trace t = xs @ trace s"
  by (induction rule: timer_step.induct) auto

lemma main_run_trace: "main_run is s t \<Longrightarrow> \<exists>xs. trace t = xs @ trace s"
proof (induction rule: main_run.induct)
  case (main_inputs s t)
  then show ?case by (rule quiet_steps_trace)
next
  case (main_door i s u v "is" t)
  then show ?case using timer_step_trace [OF main_door(1)] quiet_steps_trace [OF main_door(2)] by auto
qed

lemma main_run_unlock_mono: "main_run is s t \<Longrightarrow> unlock_count n (trace s) \<le> unlock_count n (trace t)"
  using main_run_trace by fastforce

lemma cycles_timer:
  assumes "good s" and "\<forall>(db, rd)\<in>set ins. db_sys_ok db s" and "i < length (doors s)"
  shows "returns (controller_cycles cs ins s) (\<lambda>t. good t \<and> static_sys t = static_sys s \<and>
     unlock_count (doorName (door_at s i)) (trace s) \<le> unlock_count (doorName (door_at s i)) (trace t) \<and>
     (unlock_count (doorName (door_at s i)) (trace t) = unlock_count (doorName (door_at s i)) (trace s) \<longrightarrow>
       door_lock_timer (door_at t i) = max 0 (door_lock_timer (door_at s i) - int (length ins))))"
  using assms
proof (induction ins arbitrary: s)
  case Nil
  then have "0 \<le> door_lock_timer (door_at s i)" using wf_doorD(3) [OF wf_sysD] by blast
  then show ?case using Nil by (simp add: controller_cycles_def)
next
  case (Cons x ins)
  obtain db rd where [simp]: "x = (db, rd)" by fastforce
  let ?n = "doorName (door_at s i)"
  obtain t where t: "controller_cycle cs db rd s = Inr t" "good t" "static_sys t = static_sys s"
    "main_run [0..<length (doors s)] s t"
    using controller_cycle_ok [of s db cs rd] Cons.prems by (auto simp: returns_iff)
  have l: "i < length (doors t)" using Cons.prems static_sysD(1) [OF t(3)] by simp
  have n: "doorName (door_at t i) = ?n" using static_sysD(2) [OF t(3)] Cons.prems(3) by (simp add: static_door_def)
  have db': "\<forall>(db, rd)\<in>set ins. db_sys_ok db t" using Cons.prems(2) db_sys_ok_static [OF t(3)] by auto
  have mono: "unlock_count ?n (trace s) \<le> unlock_count ?n (trace t)" using t(4) by (rule main_run_unlock_mono)
  have tick: "unlock_count ?n (trace t) = unlock_count ?n (trace s) \<Longrightarrow>
      door_lock_timer (door_at t i) = max 0 (door_lock_timer (door_at s i) - 1)"
    using main_run_timer [OF t(4)] Cons.prems(3) by simp
  have "returns (controller_cycles cs ins t) (\<lambda>u. good u \<and> static_sys u = static_sys s \<and>
     unlock_count ?n (trace s) \<le> unlock_count ?n (trace u) \<and>
     (unlock_count ?n (trace u) = unlock_count ?n (trace s) \<longrightarrow>
       door_lock_timer (door_at u i) = max 0 (door_lock_timer (door_at s i) - int (length (x # ins)))))"
    by (rule returns_mono [OF Cons.IH [OF t(2) db' l]]) (use mono tick n t(3) in auto)
  then show ?case using t(1) by (simp add: controller_cycles_def)
qed

lemma airlock_start: "airlock_config s \<Longrightarrow> trace s = [] \<Longrightarrow> airlock_inv s"
  by (simp add: airlock_inv_def open_guarded_def no_pair_open_def door_open_def)

lemma cycles_airlock:
  assumes "good s" and "\<forall>(db, rd)\<in>set ins. db_sys_ok db s" and "airlock_inv s"
  shows "returns (controller_cycles cs ins s) (\<lambda>t. good t \<and> static_sys t = static_sys s \<and> airlock_inv t)"
  using assms airlock_inv_main_run by (intro controller_cycles_ok) auto

subsection \<open>A concrete controller: an airlock of two doors\<close>

definition sample_frame :: reader_frame where
  "sample_frame = \<lparr>fr_packet = \<lparr>pkt_len = 0, pkt_data = replicate 64 0\<rparr>, fr_answer = \<lparr>pkt_len = 0, pkt_data = replicate 64 0\<rparr>,
     fr_res = \<lparr>rsp_response = 0, rsp_payloadlen = 0, rsp_payload = replicate 64 0\<rparr>, fr_readlink = 23, fr_portsetup = 3\<rparr>"

definition sample_link :: "nat \<Rightarrow> idesco_reader" where
  "sample_link i = \<lparr>rd_serial = 3, use_rs485_te = False, rd_address = 0, pin_buf = replicate 29 0, pin_buf_pos = 0,
     code_timeout = 0, rd_user_data = i, incoming = [], outgoing = [], frames = (\<lambda>_. sample_frame), calls = 0\<rparr>"

definition idle_dr :: "nat option \<Rightarrow> u8 \<Rightarrow> door_reader" where
  "idle_dr h mode = \<lparr>dr_reader = h, accessMode = mode, tf_timer = 0, cardLen = 0, card2Len = 0, pinLen = 0,
     dr_card = replicate 16 0, dr_card2 = replicate 16 0, dr_pin = replicate 17 0\<rparr>"

definition sample_door :: "string \<Rightarrow> u8 \<Rightarrow> nat option \<Rightarrow> nat \<Rightarrow> u8 \<Rightarrow> door" where
  "sample_door name off partner h li = \<lparr>doorName = name, readerA = idle_dr (Some h) MODE_CARD, readerB = idle_dr None 0,
     lastInput = li, alarm_timers = 0, maskOffset = off, maskFull = 1, door_lock_timer = 1, admDisableMask = 0,
     airLockMask = 0, airLockPartnerString = None, airLockPartnerLocal = partner\<rparr>"

definition sample_sys :: "u8 \<Rightarrow> idesco_reader sys" where
  "sample_sys li = \<lparr>doors = [sample_door ''in'' 0 (Some 1) 0 li, sample_door ''out'' 1 (Some 0) 1 li],
     readers = (\<lambda>h. sample_link (if h = 0 then 0 else 1)), trace = []\<rparr>"

lemma less_2_cases: "i < (2 :: nat) \<longleftrightarrow> i = 0 \<or> i = 1"
  by auto

lemma sample_doors:
  "length (doors (sample_sys li)) = 2" "trace (sample_sys li) = []"
  "door_at (sample_sys li) 0 = sample_door ''in'' 0 (Some 1) 0 li"
  "door_at (sample_sys li) 1 = sample_door ''out'' 1 (Some 0) 1 li"
  "door_at (sample_sys li) (Suc 0) = sample_door ''out'' 1 (Some 0) 1 li"
  by (simp_all add: sample_sys_def door_at_def)

lemma sample_dr: "wf_dr (idle_dr (Some h) mode)" "wf_dr (idle_dr None 0)" "creds_ok (idle_dr h' mode)"
  by (simp_all add: idle_dr_def wf_dr_def creds_ok_def TWO_FACTOR_TIME_def)

lemma sample_link_ok: "idesco_ok (sample_link i)"
  by (simp add: idesco_ok_def sample_link_def frame_ok_def sample_frame_def)

lemma sample_good: "good (sample_sys li)"
proof
  have p: "readerA (sample_door n off p h li) = idle_dr (Some h) MODE_CARD" "readerB (sample_door n off p h li) = idle_dr None 0"
    "airLockPartnerLocal (sample_door n off p h li) = p" "maskOffset (sample_door n off p h li) = off"
    "door_lock_timer (sample_door n off p h li) = 1" "alarm_timers (sample_door n off p h li) = 0" for n off p h
    by (simp_all add: sample_door_def)
  have d: "wf_door 2 0 (sample_door ''in'' 0 (Some 1) 0 li)" "wf_door 2 (Suc 0) (sample_door ''out'' 1 (Some 0) 1 li)"
    by (simp_all add: wf_door_def all_sides p sample_dr DOOR_OPEN_TIME_def ALARM_RESEND_TIMER_def)
  show "wf_sys idesco_ok rd_user_data (sample_sys li)"
    using d unfolding wf_sys_def sample_doors less_2_cases
    by (auto simp: sample_doors all_sides p idle_dr_def) (simp_all add: sample_sys_def sample_link_ok, simp_all add: sample_link_def)
  show "creds_sys (sample_sys li)"
    unfolding creds_sys_def sample_doors less_2_cases by (auto simp: sample_doors all_sides p sample_dr)
qed

lemma sample_row_ok_all:
  assumes "CHR ''%'' \<notin> set name"
  shows "row_ok mode name sample_row"
proof -
  have "percent_pos name = None" using assms by (induction name) auto
  then have "row_subdoor_is name 0 sample_row" by (simp add: row_subdoor_is_def row_subdoor_def)
  then show ?thesis unfolding row_ok_def by (auto simp: sample_row_def intro: exI [of _ 0])
qed

lemma sample_db_ok: "db_sys_ok (sample_db now) (sample_sys li)"
  unfolding db_sys_ok_def db_ok_def sample_doors less_2_cases
  by (auto simp: sample_doors sample_rows sample_door_def intro!: sample_row_ok_all)

lemma sample_lines: "door_lines (sample_door n 0 p h li) = [13]" "door_lines (sample_door n 1 p h li) = [7]"
proof -
  have "mask_lines 1 = [13]" "mask_lines 2 = [7]" by code_simp+
  then show "door_lines (sample_door n 0 p h li) = [13]" "door_lines (sample_door n 1 p h li) = [7]"
    by (simp_all add: door_lines_def sample_door_def)
qed

lemma sample_airlock: "airlock_config (sample_sys li)"
proof -
  have p: "admDisableMask (sample_door n off p h li) = 0" "airLockPartnerLocal (sample_door n off p h li) = p" for n off p h
    by (simp_all add: sample_door_def)
  show ?thesis
    unfolding airlock_config_def sample_doors less_2_cases
    by (auto simp: sample_doors p sample_lines)
qed

subsection \<open>Properties\<close>





text \<open>
  Property C1. Airlock: when partners are mutual, the doors drive different lines and none is
  administratively disabled, then after any number of cycles from the start two partnered doors
  have never been unlocked at the same time, at any point of the history of output lines.
\<close>

theorem airlock_exclusion:
  assumes "wf_sys idesco_ok rd_user_data s" and "creds_sys s" and "airlock_config s" and "trace s = []"
    and "\<forall>(db, rd)\<in>set ins. db_sys_ok db s"
  shows "\<exists>t. controller_cycles cs ins s = Inr t \<and>
    (\<forall>i < length (doors t). \<forall>j. airLockPartnerLocal (door_at t i) = Some j \<longrightarrow>
       always (\<lambda>tr. \<not> (door_open tr (door_at t i) \<and> door_open tr (door_at t j))) (trace t))"
proof -
  obtain t where t: "controller_cycles cs ins s = Inr t" "airlock_inv t"
    using cycles_airlock [of s ins cs] airlock_start assms by (auto simp: returns_iff)
  have "always (\<lambda>tr. \<not> (door_open tr (door_at t i) \<and> door_open tr (door_at t j))) (trace t)"
    if "i < length (doors t)" "airLockPartnerLocal (door_at t i) = Some j" for i j
  proof -
    have "always (no_pair_open t) (trace t)" using t(2) by (simp add: airlock_inv_def)
    then show ?thesis
    proof (rule always_mono)
      show "\<not> (door_open tr (door_at t i) \<and> door_open tr (door_at t j))" if "no_pair_open t tr" for tr
        using that \<open>i < length (doors t)\<close> \<open>airLockPartnerLocal (door_at t i) = Some j\<close> airlock_mutual(1) [OF t(2)]
        by (auto simp: no_pair_open_def)
    qed
  qed
  then show ?thesis using t(1) by blast
qed

theorem airlock_exclusion_witness:
  "\<exists>t. controller_cycles True [(sample_db 7, None), (sample_db 7, Some [1, 0, 1, 1, 1, 0, 1, 1])] (sample_sys 0x0e) = Inr t \<and>
    (\<forall>i < length (doors t). \<forall>j. airLockPartnerLocal (door_at t i) = Some j \<longrightarrow>
       always (\<lambda>tr. \<not> (door_open tr (door_at t i) \<and> door_open tr (door_at t j))) (trace t))"
  by (rule airlock_exclusion) (use sample_good [of "0x0e"] sample_airlock sample_db_ok in \<open>auto simp: sample_doors\<close>)

text \<open>
  Property C2. Every door locks again: when a door is not unlocked during 13 or more consecutive
  cycles, then at their end none of its lines is at the unlocking level.
\<close>

theorem doors_relock:
  assumes "wf_sys idesco_ok rd_user_data s0" and "creds_sys s0" and "airlock_config s0" and "trace s0 = []"
    and "\<forall>(db, rd)\<in>set before \<union> set ins. db_sys_ok db s0" and "13 \<le> length ins"
    and "controller_cycles cs before s0 = Inr s" and "controller_cycles cs ins s = Inr t"
    and "i < length (doors s0)"
    and "unlock_count (doorName (door_at s i)) (trace t) = unlock_count (doorName (door_at s i)) (trace s)"
  shows "\<not> door_open (trace t) (door_at t i)"
proof -
  have s: "good s" "static_sys s = static_sys s0" "airlock_inv s"
    using cycles_airlock [of s0 before cs] airlock_start assms(1-5,7) by auto
  have db: "\<forall>(db, rd)\<in>set ins. db_sys_ok db s" using assms(5) db_sys_ok_static [OF s(2)] by auto
  have i: "i < length (doors s)" using assms(9) static_sysD(1) [OF s(2)] by simp
  have t: "static_sys t = static_sys s" "airlock_inv t" using cycles_airlock [OF s(1) db s(3), of cs] assms(8) by auto
  have "door_lock_timer (door_at t i) = max 0 (door_lock_timer (door_at s i) - int (length ins))"
    using cycles_timer [OF s(1) db i, of cs] assms(8,10) by auto
  moreover have "door_lock_timer (door_at s i) \<le> 13"
    using s(1) wf_doorD(3) [OF wf_sysD [OF _ i]] by (auto simp: DOOR_OPEN_TIME_def)
  ultimately have "door_lock_timer (door_at t i) = 0" using assms(6) by simp
  then show ?thesis using airlock_guard(1) [OF t(2), of i] i static_sysD(1) [OF t(1)] by auto
qed

definition lone_sys :: "idesco_reader sys" where
  "lone_sys = \<lparr>doors = [(sample_door ''gate'' 0 None 0 4)\<lparr>readerA := idle_dr None 0\<rparr>], readers = sample_link, trace = []\<rparr>"

theorem doors_relock_witness:
  "\<exists>t. controller_cycles True (replicate 13 (sample_db 7, Some [0, 0, 1, 0, 0, 0, 0, 0])) lone_sys = Inr t \<and> \<not> door_open (trace t) (door_at t 0)"
proof -
  let ?d = "(sample_door ''gate'' 0 None 0 4)\<lparr>readerA := idle_dr None 0\<rparr>"
  have l: "length (doors lone_sys) = 1" "door_at lone_sys 0 = ?d" "trace lone_sys = []"
    by (simp_all add: lone_sys_def door_at_def)
  have d: "wf_door 1 0 ?d"
    by (simp add: wf_door_def all_sides sample_door_def sample_dr DOOR_OPEN_TIME_def ALARM_RESEND_TIMER_def)
  have g: "good lone_sys"
    using d unfolding wf_sys_def creds_sys_def l less_one
    by (auto simp: l all_sides sample_door_def idle_dr_def creds_ok_def) (simp_all add: lone_sys_def sample_link_ok)
  have a: "airlock_config lone_sys"
    unfolding airlock_config_def l less_one by (auto simp: l sample_door_def)
  have db: "db_sys_ok (sample_db 7) lone_sys"
    unfolding db_sys_ok_def db_ok_def l less_one by (auto simp: l sample_rows sample_door_def intro!: sample_row_ok_all)
  let ?ins = "replicate 13 (sample_db 7, Some [0, 0, 1, 0, 0, 0, 0, 0])"
  have "returns (controller_cycles True ?ins lone_sys) (\<lambda>t. unlock_count ''gate'' (trace t) = 0)"
    by code_simp
  then obtain t where t: "controller_cycles True ?ins lone_sys = Inr t" "unlock_count ''gate'' (trace t) = 0"
    by (auto simp: returns_iff)
  have "\<not> door_open (trace t) (door_at t 0)"
  proof (rule doors_relock [of lone_sys "[]" ?ins True lone_sys t 0])
    show "\<forall>(db, rd)\<in>set [] \<union> set ?ins. db_sys_ok db lone_sys" using db by auto
    show "unlock_count (doorName (door_at lone_sys 0)) (trace t) = unlock_count (doorName (door_at lone_sys 0)) (trace lone_sys)"
      using t(2) by (simp add: l sample_door_def unlock_count_def)
  qed (use g a t l in \<open>simp_all add: controller_cycles_def\<close>)
  then show ?thesis using t(1) by blast
qed

text \<open>
  Property C17. Unlocking: \<open>unlock_door\<close> computes the mask of allowed lines; when it is zero
  nothing changes at the doors and the lines, otherwise all lines of the mask are at level 0,
  every other line keeps its level, the timer is set and the airlock partner is fully blocked.
\<close>

theorem unlock_door_drives:
  assumes "wf_sys idesco_ok rd_user_data s" and "i < length (doors s)" and "um = unlock_mask m (door_at s i)"
  shows "\<exists>t. unlock_door (reader_signal cs) i m s = Inr (um, t) \<and> wf_sys idesco_ok rd_user_data t \<and>
    (if um = 0 then doors t = doors s \<and> line_level (trace t) = line_level (trace s)
     else door_lock_timer (door_at t i) = DOOR_OPEN_TIME \<and>
       (\<forall>l. line_level (trace t) l = (if l \<in> set (mask_lines um) then Some 0 else line_level (trace s) l)) \<and>
       (\<forall>p. airLockPartnerLocal (door_at s i) = Some p \<longrightarrow> airLockMask (door_at t p) = maskFull (door_at s p)))"
proof -
  obtain t where t: "unlock_door (reader_signal cs) i m s = Inr (um, t)" "wf_sys idesco_ok rd_user_data t"
    "agree (if um = 0 then s else unlocked_state i um s) t"
    using idesco.unlock_door_ok [OF assms(1-3), where cs = cs] by (auto simp: returns_iff intro: quiet_run_wf)
  show ?thesis
  proof (cases "um = 0")
    case True
    then show ?thesis using t line_level_agree [OF t(3)] by (auto simp: agree_def)
  next
    case False
    then have a: "agree (unlocked_state i um s) t" using t(3) by simp
    have p: "p < length (doors s) \<and> p \<noteq> i" if "airLockPartnerLocal (door_at s i) = Some p" for p
      using wf_sys_partner [OF assms(1,2) that] .
    have "airLockMask (door_at t p) = maskFull (door_at s p)" if "airLockPartnerLocal (door_at s i) = Some p" for p
      using p [OF that] that by (simp add: agree_door_at [OF a] unlocked_state_def block_partner_def)
    moreover have "line_level (trace t) l = (if l \<in> set (mask_lines um) then Some 0 else line_level (trace s) l)" for l
      unfolding line_level_agree [OF a] by (rule unlocked_line)
    ultimately show ?thesis
      using False t(1,2) assms(2) by (simp add: agree_door_at [OF a])
  qed
qed

theorem unlock_door_drives_witness:
  "\<exists>t. unlock_door (reader_signal True) 0 1 (sample_sys 0x0e) = Inr (1, t) \<and> door_lock_timer (door_at t 0) = 13 \<and>
     line_level (trace t) 13 = Some 0 \<and> airLockMask (door_at t 1) = 1"
proof -
  have u: "1 = unlock_mask 1 (door_at (sample_sys 0x0e) 0)"
    by (simp add: sample_doors unlock_mask_def sample_door_def)
  have "wf_sys idesco_ok rd_user_data (sample_sys 0x0e)" using sample_good by blast
  from unlock_door_drives [OF this _ u, of True] obtain t where
    "unlock_door (reader_signal True) 0 1 (sample_sys 0x0e) = Inr (1, t)" "door_lock_timer (door_at t 0) = DOOR_OPEN_TIME"
    "\<forall>l. line_level (trace t) l = (if l \<in> set (mask_lines 1) then Some 0 else line_level (trace (sample_sys 0x0e)) l)"
    "\<forall>p. airLockPartnerLocal (door_at (sample_sys 0x0e) 0) = Some p \<longrightarrow> airLockMask (door_at t p) = maskFull (door_at (sample_sys 0x0e) p)"
    by (auto simp: sample_doors)
  moreover have "mask_lines 1 = [13]" by code_simp
  ultimately show ?thesis by (auto simp: sample_doors sample_door_def DOOR_OPEN_TIME_def)
qed



text \<open>
  The alarm byte of an input has bit 1 exactly when the emergency input is active
  and bit 2 exactly when the door is not closed, and no other bit: neither the lock contact nor
  the button raises an alarm.
\<close>

lemma alarm_bits: "bit (alarm_of inp) k \<longleftrightarrow> k = 1 \<and> bit inp 1 \<or> k = 2 \<and> \<not> bit inp 2"
  by (rule alarm_of_bits)

text \<open>
  \<open>getDoorByName\<close> finds the first door of the name, and \<open>None\<close> means that no
  door has it.
\<close>

lemma getDoorByName_first:
  "case getDoorByName ds name of
     Some i \<Rightarrow> i < length ds \<and> doorName (ds ! i) = name \<and> name \<notin> doorName ` set (take i ds)
   | None \<Rightarrow> name \<notin> doorName ` set ds"
  by (induction ds) (auto split: option.splits)

text \<open>
  Property C28. A door that closes does not release its airlock partner in the same cycle, even
  when its lock timer has run out: \<open>check_inputs\<close> calls \<open>airLockOnPartner\<close> before it
  stores the new input, so the test for a closed door still sees the old one.
\<close>

theorem closing_keeps_partner_blocked:
  assumes "wf_sys idesco_ok rd_user_data s" and "i < length (doors s)" and "p < length (doors s)"
    and "\<not> bit (lastInput (door_at s i)) 7" "\<not> bit (lastInput (door_at s i)) 2"
    and "bit inp 2" "\<not> bit inp 0" "\<not> bit inp 1"
  shows "\<exists>t. check_door (reader_signal cs) i inp s = Inr t \<and>
    airLockMask (door_at t p) = airLockMask (door_at s p) \<and> lastInput (door_at t i) = inp"
  using idesco.check_door_close_event [OF assms(1,2,4-8,3), where cs = cs] unfolding returns_iff .

theorem closing_keeps_partner_blocked_witness:
  "\<exists>t. check_door (reader_signal True) 0 0x0c
      (upd_door 0 (\<lambda>d. d\<lparr>door_lock_timer := 0\<rparr>) (upd_door 1 (\<lambda>d. d\<lparr>airLockMask := 1\<rparr>) (sample_sys 0x08))) = Inr t \<and>
    airLockMask (door_at t 1) = 1"
proof -
  let ?s1 = "upd_door 1 (\<lambda>d. d\<lparr>airLockMask := 1\<rparr>) (sample_sys 0x08)"
  let ?s = "upd_door 0 (\<lambda>d. d\<lparr>door_lock_timer := 0\<rparr>) ?s1"
  have w: "wf_sys idesco_ok rd_user_data (sample_sys 0x08)" using sample_good by blast
  have w1: "wf_sys idesco_ok rd_user_data ?s1"
    by (rule idesco.wf_upd_door [OF w]) (use wf_sysD [OF w, of 1] in \<open>simp_all add: sample_doors\<close>)
  have w2: "wf_sys idesco_ok rd_user_data ?s"
    by (rule idesco.wf_upd_door [OF w1])
      (use wf_sysD [OF w1, of 0] in \<open>simp_all add: sample_doors wf_door_frames DOOR_OPEN_TIME_def\<close>)
  have b: "bit (8 :: u8) k \<longleftrightarrow> k = 3" "bit (12 :: u8) k \<longleftrightarrow> k = 2 \<or> k = 3" for k by (rule alarm_constants)+
  have d: "lastInput (door_at ?s 0) = 8" "airLockMask (door_at ?s 1) = 1" "length (doors ?s) = 2"
    by (simp_all add: sample_doors sample_door_def)
  show ?thesis
    using closing_keeps_partner_blocked [OF w2, where i = 0 and p = 1 and inp = "0x0c" and cs = True] unfolding d b by auto
qed



end
