(* ===== verification/Remote_Control.thy ===== *)
theory Remote_Control
  imports Door_Controller
begin

text \<open>
  The remote control (\<open>door_controller/remoteControl.c\<close>): the datagrams of the UDP socket, the
  commands on doors, and the persistent state of administrative locks that is restored at the
  start.

  Sockets and SQLite are outside the repository. A datagram is the bytes that arrive; the result
  of a call is the reply sent. \<open>sql\<close> prepares a statement with its parameters, steps it once and
  finalises it: it yields the result code and, for a row, the text of column 0, and the new
  database of type \<open>'d\<close>. \<open>sql_rows\<close> yields the rows of a query, \<open>NULL\<close> columns as \<open>None\<close>.
\<close>

definition BUF_SIZE :: nat where "BUF_SIZE = 128"

datatype sql_value = SText string | SInt int
datatype sql_result = SQLITE_DONE | SQLITE_ROW "string option" | SQLITE_FAIL int

type_synonym 'd sql_op = "string \<Rightarrow> sql_value list \<Rightarrow> 'd \<Rightarrow> sql_result \<times> 'd"
type_synonym state_row = "string option \<times> string option \<times> int"

datatype DbSetUnset = DB_SET | DB_UNSET

subsection \<open>The state database\<close>

definition state_q :: string where "state_q = CHR 0x27 # ''state'' @ [CHR 0x27]"

definition insert_sql :: string where "insert_sql = ''INSERT OR REPLACE INTO '' @ state_q @ '' VALUES (?, ?, ?);''"
definition delete_sql :: string where "delete_sql = ''DELETE FROM '' @ state_q @ '' WHERE door=? AND mode=?;''"
definition dbinfo_sql :: string where "dbinfo_sql = ''SELECT GROUP_CONCAT(mode) FROM state WHERE door=?''"
definition create_sql :: string where
  "create_sql = ''CREATE TABLE IF NOT EXISTS '' @ state_q @ '' (door TEXT, mode TEXT, arg INT, UNIQUE(door, mode));''"
definition select_sql :: string where "select_sql = ''SELECT * from '' @ state_q @ '';''"

text \<open>The third parameter is bound in both cases; the deletion has no place for it.\<close>

definition db_set_unset ::
  "'d sql_op \<Rightarrow> string \<Rightarrow> string \<Rightarrow> u32 \<Rightarrow> DbSetUnset \<Rightarrow> 'd \<Rightarrow> int \<times> 'd" where
  "db_set_unset sql name state arg act db =
     (let (ret, db) = (case act of
            DB_SET \<Rightarrow> sql insert_sql [SText name, SText state, SInt (sint arg)] db
          | DB_UNSET \<Rightarrow> sql delete_sql [SText name, SText state] db)
      in (if ret \<noteq> SQLITE_DONE then 2 else 0, db))"

subsection \<open>Parsing a datagram\<close>

record command =
  c_cmd :: "string option"
  c_door :: "string option"
  c_arg1 :: "string option"
  c_argX :: "string option"

text \<open>\<open>buf[ret] = 0\<close> is outside the array when the datagram fills it.\<close>

definition parse_command :: "string \<Rightarrow> command cres" where
  "parse_command bytes =
     (let buf = take BUF_SIZE bytes
      in if length buf = BUF_SIZE then Inl Out_of_bounds
         else let (cmd, tmp) = strtok (cstring buf);
                  (name, tmp) = strtok tmp;
                  (arg1, tmp) = strtok tmp;
                  (argX, tmp) = strtok tmp
              in Inr \<lparr>c_cmd = cmd, c_door = name, c_arg1 = arg1, c_argX = argX\<rparr>)"

text \<open>\<open>arg2\<close> is an \<open>int\<close>, kept as its 32 bits.\<close>

definition arg2_of :: "string option \<Rightarrow> u32" where
  "arg2_of argX = (case argX of None \<Rightarrow> 0 | Some s \<Rightarrow> word_of_int (strtoll s))"

subsection \<open>Commands\<close>

text \<open>The state a command works on, and whether it replies with a text, \<open>OK\<close> or \<open>ERR\<close>.\<close>

type_synonym ('r, 'd) ctl = "'r sys \<times> 'd"

definition reply_fits :: "string \<Rightarrow> string option" where
  "reply_fits text = (if length text < BUF_SIZE then Some text else None)"

definition newline :: string where "newline = [CHR 0x0a]"

definition info_text :: "string \<Rightarrow> door \<Rightarrow> string" where
  "info_text name d = ''INFO '' @ name @ '': 0x'' @ num_string 16 (unat (lastInput d)) @ '' '' @
     dec_string (alarm_timers d) @ '' '' @ dec_string (door_lock_timer d) @ newline"

definition cmd_get :: "'d sql_op \<Rightarrow> nat \<Rightarrow> string \<Rightarrow> string \<Rightarrow> ('r, 'd) ctl \<Rightarrow> string option \<times> ('r, 'd) ctl" where
  "cmd_get sql i name arg1 = (\<lambda>(s, db).
     if arg1 = ''info'' then (reply_fits (info_text name (door_at s i)), s, db)
     else if arg1 = ''dbinfo''
     then let (ret, db) = sql dbinfo_sql [SText name] db;
              info = (case ret of SQLITE_ROW v \<Rightarrow> v | _ \<Rightarrow> None)
          in (reply_fits (''DB INFO '' @ name @ '': '' @ str_arg info @ newline), s, db)
     else (None, s, db))"

definition clear_blocks :: "nat \<Rightarrow> 'r sys \<Rightarrow> 'r sys" where
  "clear_blocks i = upd_door i (\<lambda>d. d\<lparr>admDisableMask := 0, airLockMask := 0\<rparr>)"

definition set_adm :: "nat \<Rightarrow> u32 \<Rightarrow> 'r sys \<Rightarrow> 'r sys" where
  "set_adm i m = upd_door i (\<lambda>d. d\<lparr>admDisableMask := m\<rparr>)"

definition OK_text :: string where "OK_text = ''OK'' @ newline"
definition ERR_text :: string where "ERR_text = ''ERR'' @ newline"

definition cmd_set ::
  "'r signal_op \<Rightarrow> 'd sql_op \<Rightarrow> nat \<Rightarrow> string \<Rightarrow> string \<Rightarrow> u32 \<Rightarrow> ('r, 'd) ctl \<Rightarrow> (string option \<times> ('r, 'd) ctl) cres" where
  "cmd_set rsig sql i name arg1 arg2 = (\<lambda>(s, db).
     if arg1 = ''unlock''
     then cbind (unlock_door rsig i arg2 (clear_blocks i s)) (\<lambda>(_, s).
          let s = set_adm i arg2 s;
              (r1, db) = db_set_unset sql name ''lock'' arg2 DB_UNSET db;
              (r2, db) = db_set_unset sql name ''unlock'' arg2 DB_SET db
          in cbind (signalDoorStatus rsig i s) (\<lambda>s.
             Inr (if r1 + r2 = 0 then Some OK_text else None, s, db)))
     else if arg1 = ''lock''
     then cbind (lock_door rsig i arg2 (clear_blocks i s)) (\<lambda>(_, s).
          let s = set_adm i arg2 s;
              (r1, db) = db_set_unset sql name ''unlock'' arg2 DB_UNSET db;
              (r2, db) = db_set_unset sql name ''lock'' arg2 DB_SET db
          in cbind (signalDoorStatus rsig i s) (\<lambda>s.
             Inr (if r1 + r2 = 0 then Some OK_text else None, s, db)))
     else Inr (None, s, db))"

definition cmd_unset ::
  "'r signal_op \<Rightarrow> 'd sql_op \<Rightarrow> nat \<Rightarrow> string \<Rightarrow> string \<Rightarrow> u32 \<Rightarrow> ('r, 'd) ctl \<Rightarrow> (string option \<times> ('r, 'd) ctl) cres" where
  "cmd_unset rsig sql i name arg1 arg2 = (\<lambda>(s, db).
     let (ret, db) = db_set_unset sql name arg1 arg2 DB_UNSET db
     in if ret = 0
        then cbind (if arg1 = ''unlock'' \<or> arg1 = ''lock'' then signalDoorStatus rsig i (set_adm i 0 s) else Inr s)
               (\<lambda>s. Inr (Some OK_text, s, db))
        else Inr (None, s, db))"

definition cmd_do ::
  "'r signal_op \<Rightarrow> nat \<Rightarrow> string \<Rightarrow> u32 \<Rightarrow> ('r, 'd) ctl \<Rightarrow> (string option \<times> ('r, 'd) ctl) cres" where
  "cmd_do rsig i arg1 arg2 = (\<lambda>(s, db).
     if arg1 = ''unlock''
     then cbind (unlock_door rsig i arg2 s) (\<lambda>(m, s).
          if m \<noteq> 0 then cbind (signalDoorStatus rsig i s) (\<lambda>s. Inr (Some OK_text, s, db)) else Inr (None, s, db))
     else if arg1 = ''lock''
     then cbind (lock_door rsig i arg2 s) (\<lambda>(m, s).
          if m \<noteq> 0 then cbind (signalDoorStatus rsig i s) (\<lambda>s. Inr (Some OK_text, s, db)) else Inr (None, s, db))
     else if arg1 = ''block''
     then Inr (Some OK_text, upd_door i (\<lambda>d. d\<lparr>airLockMask := airLockMask d OR arg2\<rparr>) s, db)
     else if arg1 = ''unblock''
     then Inr (Some OK_text, upd_door i (\<lambda>d. d\<lparr>airLockMask := airLockMask d AND NOT arg2\<rparr>) s, db)
     else Inr (None, s, db))"

definition run_command ::
  "'r signal_op \<Rightarrow> 'd sql_op \<Rightarrow> command \<Rightarrow> ('r, 'd) ctl \<Rightarrow> (string option \<times> ('r, 'd) ctl) cres" where
  "run_command rsig sql c = (\<lambda>(s, db).
     case (c_cmd c, c_door c, c_arg1 c) of
       (Some cmd, Some name, Some arg1) \<Rightarrow>
         (case getDoorByName (doors s) name of
            None \<Rightarrow> Inr (None, s, db)
          | Some i \<Rightarrow>
              if cmd = ''get'' then Inr (cmd_get sql i name arg1 (s, db))
              else if cmd = ''set'' \<and> c_argX c \<noteq> None then cmd_set rsig sql i name arg1 (arg2_of (c_argX c)) (s, db)
              else if cmd = ''unset'' then cmd_unset rsig sql i name arg1 (arg2_of (c_argX c)) (s, db)
              else if cmd = ''do'' \<and> c_argX c \<noteq> None then cmd_do rsig i arg1 (arg2_of (c_argX c)) (s, db)
              else Inr (None, s, db))
     | _ \<Rightarrow> Inr (None, s, db))"

text \<open>
  One call. \<open>None\<close> stands for no datagram: \<open>select\<close> reports none or fails, or \<open>recvfrom\<close>
  yields nothing. What is not answered otherwise is answered with \<open>ERR\<close>.
\<close>

definition check_network ::
  "'r signal_op \<Rightarrow> 'd sql_op \<Rightarrow> string option \<Rightarrow> ('r, 'd) ctl \<Rightarrow> (string option \<times> ('r, 'd) ctl) cres" where
  "check_network rsig sql datagram = (\<lambda>(s, db).
     case datagram of
       None \<Rightarrow> Inr (None, s, db)
     | Some bytes \<Rightarrow>
         if bytes = [] then Inr (None, s, db)
         else cbind (parse_command bytes) (\<lambda>c.
              let s = emit [Event (EVENT_REMOTE_CTRL (c_door c) (c_cmd c) (c_arg1 c) (c_argX c))] s
              in cbind (run_command rsig sql c (s, db)) (\<lambda>(reply, st).
                 Inr (Some (case reply of Some t \<Rightarrow> t | None \<Rightarrow> ERR_text), st))))"

subsection \<open>Start\<close>

text \<open>\<open>open_network\<close>: the results of \<open>socket\<close>, \<open>setsockopt\<close> and \<open>bind\<close> are arguments.\<close>

definition open_network :: "int \<Rightarrow> int \<Rightarrow> int \<Rightarrow> int" where
  "open_network sh opt bnd = (if sh < 0 then - 1 else if opt < 0 then - 2 else if bnd < 0 then - 3 else sh)"

definition strcmp_null :: "string option \<Rightarrow> string cres" where
  "strcmp_null s = (case s of None \<Rightarrow> Inl Null_pointer | Some s \<Rightarrow> Inr s)"

definition restore_row :: "'r signal_op \<Rightarrow> state_row \<Rightarrow> 'r sys \<Rightarrow> 'r sys cres" where
  "restore_row rsig = (\<lambda>(name, mode, arg) s.
     if doors s = [] then Inr s
     else cbind (strcmp_null name) (\<lambda>name.
          case getDoorByName (doors s) name of
            None \<Rightarrow> Inr s
          | Some i \<Rightarrow>
              cbind (strcmp_null mode) (\<lambda>mode.
              cbind (if mode = ''unlock''
                     then cbind (unlock_door rsig i (word_of_int arg) s) (\<lambda>(_, s). Inr (set_adm i (word_of_int arg) s))
                     else if mode = ''lock''
                     then cbind (lock_door rsig i (word_of_int arg) s) (\<lambda>(_, s). Inr (set_adm i (word_of_int arg) s))
                     else Inr s) (\<lambda>s.
              signalDoorStatus rsig i s))))"

definition init_remote_control ::
  "'r signal_op \<Rightarrow> 'd sql_op \<Rightarrow> ('d \<Rightarrow> string \<Rightarrow> state_row list) \<Rightarrow> int \<Rightarrow> bool \<Rightarrow> ('r, 'd) ctl \<Rightarrow> (int \<times> ('r, 'd) ctl) cres" where
  "init_remote_control rsig sql sql_rows sh opened = (\<lambda>(s, db).
     if sh < 0 then Inr (- 1, s, db)
     else if \<not> opened then Inr (- 2, s, db)
     else let (ret, db) = sql create_sql [] db
          in if ret \<noteq> SQLITE_DONE then Inr (- 3, s, db)
             else cbind (cfold (restore_row rsig) (sql_rows db select_sql) s) (\<lambda>s. Inr (0, s, db)))"

end
