(* ===== verification/Remote_Safety.thy ===== *)
theory Remote_Safety
  imports Controller Remote_Control
begin

text \<open>
  The remote control kept safe: every command keeps the doors well-formed, the administrative
  masks and their restoration at the start, the main loop with network, and their properties.
\<close>

subsection \<open>Remote commands keep the invariants\<close>

definition door_names :: "'r sys \<Rightarrow> string list" where
  "door_names s = map doorName (doors s)"

lemma door_names_eq: "door_names s = map fst (static_sys s)"
  by (simp add: door_names_def static_sys_def static_door_def)

lemma door_names_static: "static_sys t = static_sys s \<Longrightarrow> door_names t = door_names s"
  by (simp only: door_names_eq)

lemma door_names_length: "door_names t = door_names s \<Longrightarrow> length (doors t) = length (doors s)"
  unfolding door_names_def by (metis length_map)

lemma db_sys_ok_eq: "db_sys_ok db s = (\<forall>n\<in>set (door_names s). db_ok db n)"
  by (auto simp: db_sys_ok_def door_names_def door_at_def set_conv_nth)

lemma db_sys_ok_names: "door_names t = door_names s \<Longrightarrow> db_sys_ok db t = db_sys_ok db s"
  by (simp only: db_sys_ok_eq)

lemma door_names_upd: "doorName (f (doors s ! i)) = doorName (doors s ! i) \<Longrightarrow> door_names (upd_door i f s) = door_names s"
  by (simp add: door_names_def upd_door_def map_update) (metis list_update_id map_update)

lemma getDoorByName_less: "getDoorByName ds name = Some i \<Longrightarrow> i < length ds \<and> doorName (ds ! i) = name"
  by (induction ds arbitrary: i) (auto split: if_splits)

lemma getDoorByName_names: "map doorName ds = map doorName es \<Longrightarrow> getDoorByName ds name = getDoorByName es name"
proof (induction ds arbitrary: es)
  case (Cons d ds)
  then obtain e es' where "es = e # es'" "doorName d = doorName e" "map doorName ds = map doorName es'" by (cases es) auto
  then show ?case using Cons.IH by simp
qed simp

context reader_signals begin

definition kept :: "'r sys \<Rightarrow> 'r sys \<Rightarrow> bool" where
  "kept s t \<longleftrightarrow> wf t \<and> (creds_sys s \<longrightarrow> creds_sys t) \<and> door_names t = door_names s"

lemma kept_trans: "kept s t \<Longrightarrow> kept t u \<Longrightarrow> kept s u"
  by (auto simp: kept_def)

lemma kept_quiet: "quietly s t \<Longrightarrow> kept s t"
proof -
  assume q: "quietly s t"
  show "kept s t"
    unfolding kept_def using quiet_run_wf [OF q] creds_quiet [OF q] door_names_static [OF quiet_run_static [OF q]] by simp
qed

lemma kept_emit: "wf s \<Longrightarrow> kept s (emit outs s)"
  by (simp add: kept_def wf_emit door_names_def)

lemma kept_length: "kept s t \<Longrightarrow> length (doors t) = length (doors s)"
  unfolding kept_def using door_names_length [of t s] by blast

text \<open>Changing the block masks of a door.\<close>

lemma kept_masks:
  assumes w: "wf s" and i: "i < length (doors s)"
    and f: "\<And>d. wf_door (length (doors s)) i (f d) = wf_door (length (doors s)) i d" "\<And>d sd. get_dr sd (f d) = get_dr sd d"
      "\<And>d. doorName (f d) = doorName d"
  shows "kept s (upd_door i f s)"
proof -
  have "wf (upd_door i f s)" using w wf_sysD [OF w i] by (intro wf_upd_door) (simp_all add: f)
  moreover have "creds_sys s \<longrightarrow> creds_sys (upd_door i f s)" by (simp add: creds_sys_def f)
  ultimately show ?thesis by (simp add: kept_def door_names_upd f)
qed

lemma kept_set_adm: "wf s \<Longrightarrow> i < length (doors s) \<Longrightarrow> kept s (set_adm i m s)"
  unfolding set_adm_def by (rule kept_masks) (simp_all add: wf_door_def)

lemma get_dr_masks [simp]: "get_dr sd (d\<lparr>admDisableMask := m, airLockMask := k\<rparr>) = get_dr sd d"
  by (cases sd) simp_all

lemma kept_clear_blocks: "wf s \<Longrightarrow> i < length (doors s) \<Longrightarrow> kept s (clear_blocks i s)"
  unfolding clear_blocks_def by (rule kept_masks) (simp_all add: wf_door_def)

lemma kept_airLock: "wf s \<Longrightarrow> i < length (doors s) \<Longrightarrow> kept s (upd_door i (\<lambda>d. d\<lparr>airLockMask := g d\<rparr>) s)"
  by (rule kept_masks) (simp_all add: wf_door_def)

lemma unlock_kept: "wf s \<Longrightarrow> i < length (doors s) \<Longrightarrow> returns (unlock_door rsig i m s) (\<lambda>(r, t). kept s t)"
  using unlock_door_ok [of s i "unlock_mask m (door_at s i)" m] by (auto elim!: returns_mono intro: kept_quiet)

lemma lock_kept: "wf s \<Longrightarrow> i < length (doors s) \<Longrightarrow> returns (lock_door rsig i m s) (\<lambda>(r, t). kept s t)"
proof -
  assume w: "wf s" and i: "i < length (doors s)"
  have e: "kept s (emit (gpio_actions DO_LOCK k) s)" for k using w by (rule kept_emit)
  show ?thesis
    by (rule returns_mono [OF lock_door_ok [OF w i refl]])
      (use w e kept_trans kept_quiet in \<open>auto simp: kept_def split: if_splits\<close>)
qed

lemma status_kept: "wf s \<Longrightarrow> returns (signalDoorStatus rsig i s) (kept s)"
  by (rule returns_mono [OF signalDoorStatus_ok]) (auto intro: kept_quiet)

end

context reader_signals begin

abbreviation ctl_kept :: "'r sys \<Rightarrow> string option \<times> ('r, 'd) ctl \<Rightarrow> bool" where
  "ctl_kept s x \<equiv> kept s (fst (snd x))"

lemma status_after:
  assumes "kept s t"
  shows "returns (signalDoorStatus rsig i t) (kept s)"
  by (rule returns_mono [OF status_kept]) (use assms kept_trans in \<open>auto simp: kept_def\<close>)

lemma keptD: "kept s t \<Longrightarrow> wf t" "kept s t \<Longrightarrow> i < length (doors s) \<Longrightarrow> i < length (doors t)"
  using kept_length [of s t] by (simp_all add: kept_def)

lemma set_adm_after: "kept s t \<Longrightarrow> i < length (doors s) \<Longrightarrow> kept s (set_adm i m t)"
  using kept_set_adm [OF keptD] kept_trans by blast

lemma unlock_after: "kept s t \<Longrightarrow> i < length (doors s) \<Longrightarrow> returns (unlock_door rsig i m t) (\<lambda>(r, u). kept s u)"
  by (rule returns_mono [OF unlock_kept [OF keptD]]) (auto intro: kept_trans)

lemma lock_after: "kept s t \<Longrightarrow> i < length (doors s) \<Longrightarrow> returns (lock_door rsig i m t) (\<lambda>(r, u). kept s u)"
  by (rule returns_mono [OF lock_kept [OF keptD]]) (auto intro: kept_trans)

lemma kept_refl: "wf s \<Longrightarrow> kept s s"
  by (simp add: kept_def)

lemmas kept_intros = status_after set_adm_after

lemma cmd_set_ok:
  assumes "wf s" and "i < length (doors s)"
  shows "returns (cmd_set rsig sql i name arg1 arg2 (s, db)) (ctl_kept s)"
proof -
  have c: "kept s (clear_blocks i s)" using assms by (rule kept_clear_blocks)
  have fin: "returns (cbind (signalDoorStatus rsig i (set_adm i arg2 (snd x))) (\<lambda>s. Inr (rep, s, db'))) (ctl_kept s)"
    if "(\<lambda>(r, u). kept s u) x" for x :: "u32 \<times> 'r sys" and rep db'
    using that status_after [OF set_adm_after [OF _ assms(2)], of "snd x"] by (auto simp: case_prod_beta)
  show ?thesis
    unfolding cmd_set_def prod.case
  proof (intro returns_if returns_bind [OF unlock_after [OF c assms(2)]] returns_bind [OF lock_after [OF c assms(2)]])
    show "returns (Inr (None, s, db)) (ctl_kept s)" using assms(1) by (simp add: kept_def)
  qed (use fin in \<open>simp_all add: case_prod_beta Let_def\<close>)
qed

lemma cmd_unset_ok:
  assumes "wf s" and "i < length (doors s)"
  shows "returns (cmd_unset rsig sql i name arg1 arg2 (s, db)) (ctl_kept s)"
  using status_after [OF kept_set_adm [OF assms]] kept_refl [OF assms(1)]
  by (auto simp: cmd_unset_def case_prod_beta Let_def)

lemma cmd_do_ok:
  assumes "wf s" and "i < length (doors s)"
  shows "returns (cmd_do rsig i arg1 arg2 (s, db)) (ctl_kept s)"
proof -
  have r: "kept s s" using assms(1) by (rule kept_refl)
  have fin: "returns (case x of (m, s) \<Rightarrow>
      if m \<noteq> 0 then cbind (signalDoorStatus rsig i s) (\<lambda>s. Inr (Some OK_text, s, db)) else Inr (None, s, db)) (ctl_kept s)"
    if "(\<lambda>(r, u). kept s u) x" for x :: "u32 \<times> 'r sys"
    using that status_after [of s "snd x"] by (auto simp: case_prod_beta)
  show ?thesis
    unfolding cmd_do_def prod.case
    by (intro returns_if returns_bind [OF unlock_after [OF r assms(2)]] returns_bind [OF lock_after [OF r assms(2)]] fin)
      (use assms kept_airLock r in simp_all)
qed

lemma run_command_ok:
  assumes "wf s"
  shows "returns (run_command rsig sql c (s, db)) (ctl_kept s)"
proof -
  have get: "returns (Inr (cmd_get sql i name arg1 (s, db))) (ctl_kept s)" for i name arg1
    using kept_refl [OF assms] by (simp add: cmd_get_def case_prod_beta Let_def)
  have none: "returns (Inr (None, s, db)) (ctl_kept s)" using kept_refl [OF assms] by simp
  have found: "returns (if cmd = ''get'' then Inr (cmd_get sql i name arg1 (s, db))
              else if cmd = ''set'' \<and> c_argX c \<noteq> None then cmd_set rsig sql i name arg1 (arg2_of (c_argX c)) (s, db)
              else if cmd = ''unset'' then cmd_unset rsig sql i name arg1 (arg2_of (c_argX c)) (s, db)
              else if cmd = ''do'' \<and> c_argX c \<noteq> None then cmd_do rsig i arg1 (arg2_of (c_argX c)) (s, db)
              else Inr (None, s, db)) (ctl_kept s)" if "i < length (doors s)" for i cmd name arg1
    using that by (intro returns_if get none cmd_set_ok cmd_unset_ok cmd_do_ok assms)
  show ?thesis
  proof (cases "c_cmd c = None \<or> c_door c = None \<or> c_arg1 c = None")
    case True
    then have "run_command rsig sql c (s, db) = Inr (None, s, db)"
      by (cases "c_cmd c"; cases "c_door c"; cases "c_arg1 c") (simp_all add: run_command_def)
    then show ?thesis using none by simp
  next
    case False
    then obtain cmd name arg1 where c: "c_cmd c = Some cmd" "c_door c = Some name" "c_arg1 c = Some arg1" by auto
    show ?thesis
    proof (cases "getDoorByName (doors s) name")
      case None
      then show ?thesis using none by (simp add: run_command_def c)
    next
      case (Some i)
      then have "i < length (doors s)" using getDoorByName_less by blast
      from found [OF this] show ?thesis by (simp only: run_command_def c Some prod.case option.case)
    qed
  qed
qed

lemma check_network_ok:
  assumes "wf s"
  shows "case datagram of
      Some bytes \<Rightarrow> if BUF_SIZE \<le> length bytes then check_network rsig sql datagram (s, db) = Inl Out_of_bounds
        else returns (check_network rsig sql datagram (s, db)) (ctl_kept s)
    | None \<Rightarrow> returns (check_network rsig sql datagram (s, db)) (ctl_kept s)"
proof (cases datagram)
  case None
  then show ?thesis using kept_refl [OF assms] by (simp add: check_network_def)
next
  case (Some bytes)
  show ?thesis
  proof (cases "BUF_SIZE \<le> length bytes")
    case True
    then have "bytes \<noteq> []" by (auto simp: BUF_SIZE_def)
    then show ?thesis using True by (simp add: Some check_network_def parse_command_def Let_def)
  next
    case False
    then obtain c where c: "parse_command bytes = Inr c" by (auto simp: parse_command_def Let_def case_prod_beta)
    have "returns (run_command rsig sql c (emit outs s, db)) (ctl_kept s)" for outs
      by (rule returns_mono [OF run_command_ok [OF wf_emit [OF assms]]]) (use kept_trans [OF kept_emit [OF assms]] in auto)
    then show ?thesis
      using False kept_refl [OF assms] by (auto simp: Some check_network_def c case_prod_beta)
  qed
qed

lemma restore_row_ok:
  assumes "wf s" and "fst row \<noteq> None" "fst (snd row) \<noteq> None"
  shows "returns (restore_row rsig row s) (kept s)"
proof -
  obtain name mode arg where row: "row = (Some name, Some mode, arg)" using assms(2,3) by (cases row) auto
  show ?thesis
  proof (cases "getDoorByName (doors s) name")
    case None
    then show ?thesis using kept_refl [OF assms(1)] by (simp add: restore_row_def row strcmp_null_def)
  next
    case (Some i)
    then have i: "i < length (doors s)" using getDoorByName_less by blast
    have r: "kept s s" using assms(1) by (rule kept_refl)
    have fin: "returns (case x of (m, s) \<Rightarrow> Inr (set_adm i (word_of_int arg) s)) (kept s)"
      if "(\<lambda>(r, u). kept s u) x" for x :: "u32 \<times> 'r sys"
      using that set_adm_after [OF _ i] by auto
    have "returns (if mode = ''unlock''
        then cbind (unlock_door rsig i (word_of_int arg) s) (\<lambda>(_, s). Inr (set_adm i (word_of_int arg) s))
        else if mode = ''lock''
        then cbind (lock_door rsig i (word_of_int arg) s) (\<lambda>(_, s). Inr (set_adm i (word_of_int arg) s))
        else Inr s) (kept s)"
      by (intro returns_if returns_bind [OF unlock_after [OF r i]] returns_bind [OF lock_after [OF r i]] fin) (use r in simp_all)
    then have "returns (cbind (if mode = ''unlock''
        then cbind (unlock_door rsig i (word_of_int arg) s) (\<lambda>(_, s). Inr (set_adm i (word_of_int arg) s))
        else if mode = ''lock''
        then cbind (lock_door rsig i (word_of_int arg) s) (\<lambda>(_, s). Inr (set_adm i (word_of_int arg) s))
        else Inr s) (signalDoorStatus rsig i)) (kept s)"
      by (rule returns_bind) (rule status_after)
    moreover have "doors s \<noteq> []" using i by auto
    ultimately show ?thesis by (simp add: restore_row_def row strcmp_null_def Some)
  qed
qed

end

subsection \<open>Restoring the persistent state\<close>

text \<open>
  What the program relies on of the state table: an insertion replaces the row of its door and
  mode, a deletion removes it, creating the table that exists leaves its rows.
\<close>

definition state_laws :: "'d sql_op \<Rightarrow> ('d \<Rightarrow> string \<Rightarrow> state_row list) \<Rightarrow> bool" where
  "state_laws sql sql_rows \<longleftrightarrow> (\<forall>db n m a db'.
     (sql insert_sql [SText n, SText m, SInt a] db = (SQLITE_DONE, db') \<longrightarrow>
        set (sql_rows db' select_sql) =
          insert (Some n, Some m, a) {r \<in> set (sql_rows db select_sql). (fst r, fst (snd r)) \<noteq> (Some n, Some m)}) \<and>
     (sql delete_sql [SText n, SText m] db = (SQLITE_DONE, db') \<longrightarrow>
        set (sql_rows db' select_sql) = {r \<in> set (sql_rows db select_sql). (fst r, fst (snd r)) \<noteq> (Some n, Some m)}) \<and>
     (sql create_sql [] db = (SQLITE_DONE, db') \<longrightarrow> set (sql_rows db' select_sql) = set (sql_rows db select_sql)))"

definition readable :: "state_row \<Rightarrow> bool" where
  "readable r \<longleftrightarrow> fst r \<noteq> None \<and> fst (snd r) \<noteq> None"

text \<open>The rows that decide about the administrative mask of a door.\<close>

definition adm_row :: "string \<Rightarrow> state_row \<Rightarrow> bool" where
  "adm_row name r \<longleftrightarrow> fst r = Some name \<and> fst (snd r) \<in> {Some ''lock'', Some ''unlock''}"

lemma set_adm_same: "i < length (doors s) \<Longrightarrow> admDisableMask (door_at (set_adm j m s) i) = (if i = j then m else admDisableMask (door_at s i))"
  by (simp add: set_adm_def)

lemma static_adm: "static_sys t = static_sys s \<Longrightarrow> i < length (doors s) \<Longrightarrow> admDisableMask (door_at t i) = admDisableMask (door_at s i)"
  using static_sysD(2) by (fastforce simp: static_door_def)

context reader_signals begin

definition adm_kept :: "'r sys \<Rightarrow> 'r sys \<Rightarrow> bool" where
  "adm_kept s t \<longleftrightarrow> kept s t \<and> static_sys t = static_sys s"

lemma unlock_adm: "wf s \<Longrightarrow> i < length (doors s) \<Longrightarrow> returns (unlock_door rsig i m s) (\<lambda>(r, t). adm_kept s t)"
  using unlock_door_ok [of s i "unlock_mask m (door_at s i)" m]
  by (auto elim!: returns_mono simp: adm_kept_def intro: kept_quiet quiet_run_static)

lemma lock_adm:
  assumes w: "wf s" and i: "i < length (doors s)"
  shows "returns (lock_door rsig i m s) (\<lambda>(r, t). adm_kept s t)"
proof -
  let ?lm = "lock_mask m (door_at s i)"
  have e: "adm_kept s (emit (gpio_actions DO_LOCK ?lm) s)" using w by (simp add: adm_kept_def kept_emit)
  show ?thesis
    by (rule returns_mono [OF lock_door_ok [OF w i refl]])
      (use kept_refl [OF w] e kept_trans [OF _ kept_quiet] quiet_run_static in \<open>fastforce simp: adm_kept_def split: if_splits\<close>)
qed

lemma status_adm: "wf s \<Longrightarrow> returns (signalDoorStatus rsig i s) (adm_kept s)"
  by (rule returns_mono [OF signalDoorStatus_ok]) (auto simp: adm_kept_def intro: kept_quiet quiet_run_static)

lemma restore_row_adm:
  assumes w: "wf s" and r: "readable row" and i: "getDoorByName (doors s) name = Some i"
  shows "returns (restore_row rsig row s) (\<lambda>t. kept s t \<and>
    admDisableMask (door_at t i) = (if adm_row name row then word_of_int (snd (snd row)) else admDisableMask (door_at s i)))"
proof -
  obtain n mode arg where row: "row = (Some n, Some mode, arg)" using r by (cases row) (auto simp: readable_def)
  have il: "i < length (doors s)" "doorName (door_at s i) = name" using getDoorByName_less [OF i] by (simp_all add: door_at_def)
  show ?thesis
  proof (cases "getDoorByName (doors s) n")
    case None
    then have "\<not> adm_row name row" using i by (auto simp: adm_row_def row)
    then show ?thesis using None kept_refl [OF w] by (simp add: restore_row_def row strcmp_null_def)
  next
    case (Some j)
    then have j: "j < length (doors s)" "doorName (door_at s j) = n" using getDoorByName_less by (auto simp: door_at_def)
    have ij: "i = j \<longleftrightarrow> n = name" using Some i il(2) j(2) by (metis option.inject)
    have ne: "doors s \<noteq> []" using j by auto
    define Q where "Q t \<longleftrightarrow> kept s t \<and>
      admDisableMask (door_at t i) = (if adm_row name row then word_of_int arg else admDisableMask (door_at s i))" for t
    have fin: "returns (case x of (m, t) \<Rightarrow> Inr (set_adm j (word_of_int arg) t)) Q"
      if x: "(\<lambda>(r, u). adm_kept s u) x" and m: "mode = ''lock'' \<or> mode = ''unlock''" for x :: "u32 \<times> 'r sys"
    proof -
      have k: "kept s (snd x)" "static_sys (snd x) = static_sys s" using x by (auto simp: adm_kept_def)
      have "kept s (set_adm j (word_of_int arg) (snd x))" using k(1) j(1) by (rule set_adm_after)
      moreover have "adm_row name row \<longleftrightarrow> i = j" using m ij by (auto simp: adm_row_def row)
      ultimately show ?thesis
        using static_adm [OF k(2) il(1)] keptD(2) [OF k(1) il(1)] by (cases x) (simp add: Q_def set_adm_same)
    qed
    have none: "Q s" if "mode \<noteq> ''lock''" "mode \<noteq> ''unlock''"
      using kept_refl [OF w] that by (simp add: Q_def adm_row_def row)
    have stat: "returns (signalDoorStatus rsig j t) Q" if "Q t" for t
    proof (rule returns_mono [OF status_adm])
      show "wf t" using that by (simp add: Q_def kept_def)
      show "Q u" if u: "adm_kept t u" for u
        using \<open>Q t\<close> u kept_trans [of s t u] static_adm [of u t i] keptD(2) [OF _ il(1), of t] by (auto simp: Q_def adm_kept_def)
    qed
    have "returns (if mode = ''unlock''
        then cbind (unlock_door rsig j (word_of_int arg) s) (\<lambda>(_, s). Inr (set_adm j (word_of_int arg) s))
        else if mode = ''lock''
        then cbind (lock_door rsig j (word_of_int arg) s) (\<lambda>(_, s). Inr (set_adm j (word_of_int arg) s))
        else Inr s) Q"
      by (intro returns_if returns_bind [OF unlock_adm [OF w j(1)]] returns_bind [OF lock_adm [OF w j(1)]] fin) (use none in simp_all)
    then have "returns (cbind (if mode = ''unlock''
        then cbind (unlock_door rsig j (word_of_int arg) s) (\<lambda>(_, s). Inr (set_adm j (word_of_int arg) s))
        else if mode = ''lock''
        then cbind (lock_door rsig j (word_of_int arg) s) (\<lambda>(_, s). Inr (set_adm j (word_of_int arg) s))
        else Inr s) (signalDoorStatus rsig j)) Q"
      by (rule returns_bind) (rule stat)
    then have "returns (restore_row rsig row s) Q"
      by (simp only: restore_row_def row strcmp_null_def Some ne prod.case option.case if_False cbind_simps)
    moreover have "Q = (\<lambda>t. kept s t \<and>
        admDisableMask (door_at t i) = (if adm_row name row then word_of_int (snd (snd row)) else admDisableMask (door_at s i)))"
      by (simp add: Q_def [abs_def] row)
    ultimately show ?thesis by simp
  qed
qed

lemma restore_rows_adm:
  assumes "wf s" and "getDoorByName (doors s) name = Some i"
    and "\<forall>r\<in>set rows. readable r \<and> (adm_row name r \<longrightarrow> word_of_int (snd (snd r)) = a)"
    and "(\<exists>r\<in>set rows. adm_row name r) \<or> admDisableMask (door_at s i) = a"
  shows "returns (cfold (restore_row rsig) rows s) (\<lambda>t. kept s t \<and> admDisableMask (door_at t i) = a)"
  using assms
proof (induction rows arbitrary: s)
  case Nil
  then show ?case using kept_refl by simp
next
  case (Cons r rs)
  have "returns (restore_row rsig r s) (\<lambda>t. kept s t \<and>
      admDisableMask (door_at t i) = (if adm_row name r then word_of_int (snd (snd r)) else admDisableMask (door_at s i)))"
    using Cons.prems by (intro restore_row_adm) auto
  then show ?case
    unfolding cfold.simps
  proof (rule returns_bind)
    fix t assume t: "kept s t \<and> admDisableMask (door_at t i) = (if adm_row name r then word_of_int (snd (snd r)) else admDisableMask (door_at s i))"
    have "returns (cfold (restore_row rsig) rs t) (\<lambda>u. kept t u \<and> admDisableMask (door_at u i) = a)"
    proof (rule Cons.IH)
      show "wf t" using t by (simp add: kept_def)
      show "getDoorByName (doors t) name = Some i"
        using t Cons.prems(2) getDoorByName_names [of "doors t" "doors s" name] by (simp add: kept_def door_names_def)
      show "\<forall>r\<in>set rs. readable r \<and> (adm_row name r \<longrightarrow> word_of_int (snd (snd r)) = a)" using Cons.prems(3) by simp
      show "(\<exists>r\<in>set rs. adm_row name r) \<or> admDisableMask (door_at t i) = a" using Cons.prems(3,4) t by auto
    qed
    then show "returns (cfold (restore_row rsig) rs t) (\<lambda>u. kept s u \<and> admDisableMask (door_at u i) = a)"
      using t by (auto elim!: returns_mono intro: kept_trans)
  qed
qed

end

subsection \<open>The whole main loop\<close>

text \<open>One pass of the loop of \<open>main\<close>: a cycle of the doors and, when a port is set, the network.\<close>

definition program_pass ::
  "bool \<Rightarrow> bool \<Rightarrow> 'd sql_op \<Rightarrow> auth_db \<times> gpio_result \<times> string option \<Rightarrow> (idesco_reader, 'd) ctl \<Rightarrow> (idesco_reader, 'd) ctl cres" where
  "program_pass cs port sql = (\<lambda>(db, rd, dg) (s, d).
     cbind (controller_cycle cs db rd s) (\<lambda>s.
     if port then cbind (check_network (reader_signal cs) sql dg (s, d)) (\<lambda>(_, st). Inr st) else Inr (s, d)))"

definition program_run ::
  "bool \<Rightarrow> bool \<Rightarrow> 'd sql_op \<Rightarrow> (auth_db \<times> gpio_result \<times> string option) list \<Rightarrow> (idesco_reader, 'd) ctl \<Rightarrow> (idesco_reader, 'd) ctl cres" where
  "program_run cs port sql ins st = cfold (program_pass cs port sql) ins st"

lemma program_pass_ok:
  assumes "good s" and "db_sys_ok db s" and "\<forall>bytes. dg = Some bytes \<longrightarrow> length bytes < BUF_SIZE"
  shows "returns (program_pass cs port sql (db, rd, dg) (s, d)) (\<lambda>(t, _). good t \<and> door_names t = door_names s)"
proof -
  obtain t where t: "controller_cycle cs db rd s = Inr t" "good t" "static_sys t = static_sys s"
    using controller_cycle_ok [of s db cs rd] assms by (auto simp: returns_iff)
  have n: "door_names t = door_names s" using t(3) by (rule door_names_static)
  have "returns (check_network (reader_signal cs) sql dg (t, d)) (\<lambda>x. idesco.kept t (fst (snd x)))"
    using idesco.check_network_ok [of t, where datagram = dg and cs = cs and sql = sql and db = d] t(2) assms(3) by (auto split: option.splits)
  then have "returns (check_network (reader_signal cs) sql dg (t, d)) (\<lambda>x. good (fst (snd x)) \<and> door_names (fst (snd x)) = door_names s)"
    by (rule returns_mono) (use t(2) n in \<open>auto simp: idesco.kept_def\<close>)
  then show ?thesis
    using t(1,2) n by (simp add: program_pass_def case_prod_beta)
qed

lemma program_run_ok:
  fixes d :: 'd
  assumes "good s" and "\<forall>(db, rd, dg)\<in>set ins. db_sys_ok db s \<and> (\<forall>bytes. dg = Some bytes \<longrightarrow> length bytes < BUF_SIZE)"
  shows "returns (program_run cs port sql ins (s, d)) (\<lambda>(t, _). good t \<and> door_names t = door_names s)"
  unfolding program_run_def
proof (rule returns_cfold)
  fix x and st :: "(idesco_reader, 'd) ctl"
  assume x: "x \<in> set ins" and st: "case st of (t, _) \<Rightarrow> good t \<and> door_names t = door_names s"
  obtain db rd dg where [simp]: "x = (db, rd, dg)" by (cases x)
  obtain t d' where [simp]: "st = (t, d')" by fastforce
  have "db_sys_ok db t" using x st assms(2) db_sys_ok_names [of t s db] by auto
  then show "returns (program_pass cs port sql x st) (\<lambda>(t, _). good t \<and> door_names t = door_names s)"
    using st x assms(2) by (auto intro!: returns_mono [OF program_pass_ok [of t db dg cs port sql rd d']])
qed (use assms(1) in simp)

subsection \<open>Properties\<close>


definition table_sql :: "state_row list sql_op" where
  "table_sql text args d =
     (case args of
        [SText n, SText m, SInt a] \<Rightarrow> (SQLITE_DONE, (Some n, Some m, a) # filter (\<lambda>r. (fst r, fst (snd r)) \<noteq> (Some n, Some m)) d)
      | [SText n, SText m] \<Rightarrow> (SQLITE_DONE, filter (\<lambda>r. (fst r, fst (snd r)) \<noteq> (Some n, Some m)) d)
      | [SText n] \<Rightarrow> (SQLITE_ROW None, d)
      | _ \<Rightarrow> (SQLITE_DONE, d))"




text \<open>
  Property C18. An administrative mask that covers all lines of a door freezes it: neither
  unlocking nor locking changes anything until the mask is removed.
\<close>

theorem admin_mask_freezes:
  assumes "unat (maskOffset (door_at s i)) < 32" and "maskFull (door_at s i) AND NOT (admDisableMask (door_at s i)) = 0"
  shows "unlock_door (reader_signal cs) i m s = Inr (0, s) \<and> lock_door (reader_signal cs) i m s = Inr (0, s)"
proof -
  let ?d = "door_at s i"
  have z: "m AND maskFull ?d AND NOT (admDisableMask ?d) = 0" using assms(2) by (simp add: and.assoc)
  have "m AND maskFull ?d AND NOT (airLockMask ?d) AND NOT (admDisableMask ?d) =
      NOT (airLockMask ?d) AND (m AND maskFull ?d AND NOT (admDisableMask ?d))"
    by (simp only: and.assoc and.commute and.left_commute)
  then have "m AND maskFull ?d AND NOT (airLockMask ?d) AND NOT (admDisableMask ?d) = 0" by (simp only: z and_zero_eq)
  then show ?thesis using assms(1) z by (simp add: unlock_door_def lock_door_def shifted_mask_def Let_def)
qed

theorem admin_mask_freezes_witness:
  "unlock_door (reader_signal True) 0 0xff (set_adm 0 1 (sample_sys 0x0e)) = Inr (0, set_adm 0 1 (sample_sys 0x0e))"
  using admin_mask_freezes [of "set_adm 0 1 (sample_sys 0x0e)" 0 True "0xff"]
  by (simp add: set_adm_def sample_doors sample_door_def)


lemma table_laws: "state_laws table_sql (\<lambda>d _. d)"
  unfolding state_laws_def table_sql_def by (auto simp: insert_sql_def delete_sql_def)


end
