(* ===== verification/Configuration.thy ===== *)
theory Configuration
  imports Door_Controller
begin

text \<open>
  The start of the program (\<open>door_controller/main.c\<close>): options, the configuration file, the
  doors it describes, their readers and airlock partners.

  What \<open>getopt_long\<close> yields is a list of option letters with their arguments; the file is the
  list of lines \<open>fgets\<close> returns. \<open>open_reader\<close> stands for \<open>init_reader\<close> of the linked
  driver, applied to device, RS485 flag, address and door: \<open>None\<close> when it fails. A value
  \<open>Inl n\<close> is \<open>exit(n)\<close>. Log and help texts are left out.
\<close>

subsection \<open>Options\<close>

record options =
  databasePath :: "string option"
  configFile :: "string option"
  opt_doorName :: "string option"
  opt_accessMode :: u8
  serialDev :: "string option"
  readerAddres :: u8
  use_rs485 :: bool
  port :: int
  stateDbPath :: "string option"
  opt_eventHost :: "string option"
  opt_logHost :: "string option"
  opt_logPort :: "string option"

definition default_options :: "u8 \<Rightarrow> options" where
  "default_options defaultAddress =
     \<lparr>databasePath = None, configFile = None, opt_doorName = None, opt_accessMode = 0, serialDev = None,
      readerAddres = defaultAddress, use_rs485 = False, port = 0, stateDbPath = None,
      opt_eventHost = None, opt_logHost = None, opt_logPort = None\<rparr>"

text \<open>The conversion of a \<open>long long\<close> to \<open>int\<close>.\<close>

definition to_int :: "int \<Rightarrow> int" where
  "to_int v = sint (word_of_int v :: u32)"

definition parse_option :: "char \<times> string \<Rightarrow> options \<Rightarrow> options" where
  "parse_option = (\<lambda>(c, optarg) opt.
     if c = CHR ''d'' then opt\<lparr>databasePath := Some optarg\<rparr>
     else if c = CHR ''D'' then opt\<lparr>stateDbPath := Some optarg\<rparr>
     else if c = CHR ''c'' then opt\<lparr>configFile := Some optarg\<rparr>
     else if c = CHR ''n'' then opt\<lparr>opt_doorName := Some optarg\<rparr>
     else if c = CHR ''m'' then opt\<lparr>opt_accessMode := word_of_int (strtoll optarg)\<rparr>
     else if c = CHR ''s'' then opt\<lparr>serialDev := Some optarg\<rparr>
     else if c = CHR ''a'' then opt\<lparr>readerAddres := word_of_int (strtoll optarg)\<rparr>
     else if c = CHR ''r'' then opt\<lparr>use_rs485 := True\<rparr>
     else if c = CHR ''p'' then opt\<lparr>port := to_int (strtoll optarg)\<rparr>
     else if c = CHR ''e'' then opt\<lparr>opt_eventHost := Some optarg\<rparr>
     else if c = CHR ''l'' then opt\<lparr>opt_logHost := Some optarg\<rparr>
     else if c = CHR ''L'' then opt\<lparr>opt_logPort := Some optarg\<rparr>
     else opt)"

definition parse_options :: "u8 \<Rightarrow> (char \<times> string) list \<Rightarrow> options" where
  "parse_options defaultAddress args = fold parse_option args (default_options defaultAddress)"

definition usage_error :: "options \<Rightarrow> bool" where
  "usage_error opt \<longleftrightarrow> databasePath opt = None \<or> configFile opt = None \<and> (opt_doorName opt = None \<or> serialDev opt = None)"

subsection \<open>Doors\<close>

text \<open>A zeroed \<open>Door\<close>.\<close>

definition zero_dr :: door_reader where
  "zero_dr = \<lparr>dr_reader = None, accessMode = 0, tf_timer = 0, cardLen = 0, card2Len = 0, pinLen = 0,
     dr_card = replicate 16 0, dr_card2 = replicate 16 0, dr_pin = replicate 17 0\<rparr>"

definition zero_door :: "string \<Rightarrow> door" where
  "zero_door name = \<lparr>doorName = name, readerA = zero_dr, readerB = zero_dr, lastInput = 0, alarm_timers = 0,
     maskOffset = 0, maskFull = 0, door_lock_timer = 0, admDisableMask = 0, airLockMask = 0,
     airLockPartnerString = None, airLockPartnerLocal = None\<rparr>"

record reader_config =
  rc_mode :: u8
  rc_dev :: string
  rc_rs485 :: bool
  rc_addr :: u8

record door_config =
  dc_name :: string
  dc_A :: reader_config
  dc_B :: reader_config
  dc_offset :: u8
  dc_full :: u32
  dc_partner :: string

text \<open>\<open>configParse\<close>: the next token, or \<open>exit(1)\<close>.\<close>

definition configParse :: "string \<Rightarrow> int + (string \<times> string)" where
  "configParse b = (case strtok b of (None, b) \<Rightarrow> Inl 1 | (Some f, b) \<Rightarrow> Inr (f, b))"

definition ebind :: "int + 'a \<Rightarrow> ('a \<Rightarrow> int + 'b) \<Rightarrow> int + 'b" where
  "ebind r k = (case r of Inl e \<Rightarrow> Inl e | Inr x \<Rightarrow> k x)"

definition parse_reader :: "string \<Rightarrow> int + (reader_config \<times> string)" where
  "parse_reader b =
     ebind (configParse b) (\<lambda>(mode, b).
     ebind (configParse b) (\<lambda>(dev, b).
     ebind (configParse b) (\<lambda>(rs, b).
     ebind (configParse b) (\<lambda>(addr, b).
     Inr (\<lparr>rc_mode = word_of_int (strtoll mode), rc_dev = dev,
           rc_rs485 = ((word_of_int (strtoll rs) :: u8) \<noteq> 0), rc_addr = word_of_int (strtoll addr)\<rparr>, b)))))"

definition parse_line :: "string \<Rightarrow> int + door_config" where
  "parse_line line =
     ebind (configParse (cstring line)) (\<lambda>(name, b).
     ebind (parse_reader b) (\<lambda>(ra, b).
     ebind (parse_reader b) (\<lambda>(rb, b).
     ebind (configParse b) (\<lambda>(off, b).
     ebind (configParse b) (\<lambda>(full, b).
     ebind (configParse b) (\<lambda>(partner, b).
     Inr \<lparr>dc_name = name, dc_A = ra, dc_B = rb, dc_offset = word_of_int (strtoll off),
          dc_full = word_of_int (strtoll full), dc_partner = partner\<rparr>))))))"

text \<open>Lines that describe doors: \<open>line[0] >= '0'\<close>, where \<open>char\<close> may be signed.\<close>

definition is_door_line :: "bool \<Rightarrow> string \<Rightarrow> bool" where
  "is_door_line char_signed line =
     (case line of [] \<Rightarrow> False | c # _ \<Rightarrow> 48 \<le> (of_char c :: nat) \<and> \<not> (char_signed \<and> 128 \<le> (of_char c :: nat)))"

text \<open>Opening the reader of a side: the door's reader data, and the heap with the new reader.\<close>

type_synonym 'r open_op = "string \<Rightarrow> bool \<Rightarrow> u8 \<Rightarrow> nat \<Rightarrow> 'r option"

definition open_side ::
  "'r open_op \<Rightarrow> nat \<Rightarrow> nat \<Rightarrow> reader_config \<Rightarrow> (nat \<Rightarrow> 'r) \<Rightarrow> int + (door_reader \<times> (nat \<Rightarrow> 'r))" where
  "open_side open_reader i h rc heap =
     (if rc_mode rc = 0 then Inr (zero_dr, heap)
      else case open_reader (rc_dev rc) (rc_rs485 rc) (rc_addr rc) i of
        None \<Rightarrow> Inl 2
      | Some r \<Rightarrow> Inr (zero_dr\<lparr>accessMode := rc_mode rc, dr_reader := Some h\<rparr>, heap(h := r)))"

definition make_door ::
  "'r open_op \<Rightarrow> nat \<Rightarrow> door_config \<Rightarrow> (nat \<Rightarrow> 'r) \<Rightarrow> int + (door \<times> (nat \<Rightarrow> 'r))" where
  "make_door open_reader i c heap =
     ebind (open_side open_reader i (2 * i) (dc_A c) heap) (\<lambda>(ra, heap).
     ebind (open_side open_reader i (2 * i + 1) (dc_B c) heap) (\<lambda>(rb, heap).
     Inr ((zero_door (dc_name c))\<lparr>readerA := ra, readerB := rb, maskOffset := dc_offset c, maskFull := dc_full c,
            airLockPartnerString := (case dc_partner c of [] \<Rightarrow> None | p # ps \<Rightarrow> if p \<noteq> CHR ''-'' then Some (p # ps) else None),
            lastInput := DI_STATE_IS_DIFF OR 0x0f, door_lock_timer := 1\<rparr>, heap)))"

fun read_doors ::
  "'r open_op \<Rightarrow> nat \<Rightarrow> string list \<Rightarrow> (nat \<Rightarrow> 'r) \<Rightarrow> int + (door list \<times> (nat \<Rightarrow> 'r))" where
  "read_doors open_reader i [] heap = Inr ([], heap)"
| "read_doors open_reader i (line # lines) heap =
     ebind (parse_line line) (\<lambda>c.
     ebind (make_door open_reader i c heap) (\<lambda>(d, heap).
     ebind (read_doors open_reader (Suc i) lines heap) (\<lambda>(ds, heap).
     Inr (d # ds, heap))))"

definition link_partner :: "door list \<Rightarrow> door \<Rightarrow> door" where
  "link_partner ds d =
     (case airLockPartnerString d of None \<Rightarrow> d | Some name \<Rightarrow> d\<lparr>airLockPartnerLocal := getDoorByName ds name\<rparr>)"

definition read_config ::
  "bool \<Rightarrow> 'r open_op \<Rightarrow> string list \<Rightarrow> (nat \<Rightarrow> 'r) \<Rightarrow> int + (door list \<times> (nat \<Rightarrow> 'r))" where
  "read_config char_signed open_reader lines heap =
     (let door_lines = filter (is_door_line char_signed) lines
      in if door_lines = [] then Inl 1
         else ebind (read_doors open_reader 0 door_lines heap) (\<lambda>(ds, heap). Inr (map (link_partner ds) ds, heap)))"

subsection \<open>Start\<close>

definition valid_mode :: "u8 \<Rightarrow> bool" where
  "valid_mode m \<longleftrightarrow> m = MODE_CARD \<or> m = MODE_PIN \<or> m = MODE_CARD_OR_PIN \<or> m = MODE_CARD_AND_PIN \<or>
     m = MODE_CARD_AND_PIN_ALWAYS \<or> m = MODE_TWO_CARDS"

text \<open>
  The array \<open>doors\<close>, the global \<open>doorsCount\<close>, which starts as 0, and the readers. Without a
  configuration file one door is made from the options; \<open>doorsCount\<close> is not assigned there.
\<close>

definition init_doors ::
  "bool \<Rightarrow> 'r open_op \<Rightarrow> options \<Rightarrow> string list option \<Rightarrow> (nat \<Rightarrow> 'r) \<Rightarrow> int + (door list \<times> nat \<times> (nat \<Rightarrow> 'r))" where
  "init_doors char_signed open_reader opt file heap =
     (let doorsCount = 0
      in if configFile opt \<noteq> None
         then case file of
                None \<Rightarrow> Inl 1
              | Some lines \<Rightarrow> ebind (read_config char_signed open_reader lines heap) (\<lambda>(ds, heap). Inr (ds, length ds, heap))
         else if \<not> valid_mode (opt_accessMode opt) then Inl 1
         else ebind (open_side open_reader 0 0 \<lparr>rc_mode = opt_accessMode opt, rc_dev = the (serialDev opt),
                                rc_rs485 = use_rs485 opt, rc_addr = readerAddres opt\<rparr> heap) (\<lambda>(ra, heap).
              Inr ([(zero_door (the (opt_doorName opt)))\<lparr>readerA := ra, maskFull := 0x0f,
                      lastInput := DI_STATE_IS_DIFF OR 0x0f, door_lock_timer := 1\<rparr>], doorsCount, heap)))"

text \<open>
  \<open>main\<close> up to the remote control: \<open>opened\<close> tells whether \<open>sqlite3_open\<close> succeeds. The
  functions of the controller get \<open>doors\<close> and \<open>doorsCount\<close>, so the state holds the doors below
  the count.
\<close>

definition start ::
  "bool \<Rightarrow> u8 \<Rightarrow> 'r open_op \<Rightarrow> (char \<times> string) list \<Rightarrow> string list option \<Rightarrow> bool \<Rightarrow> (nat \<Rightarrow> 'r) \<Rightarrow> int + 'r sys" where
  "start char_signed defaultAddress open_reader args file opened heap =
     (let opt = parse_options defaultAddress args
      in if usage_error opt then Inl 1
         else ebind (init_doors char_signed open_reader opt file heap) (\<lambda>(ds, doorsCount, heap).
              if \<not> opened then Inl 3
              else Inr \<lparr>doors = take doorsCount ds, readers = heap, trace = []\<rparr>))"

end
