(* ===== verification/Program_Start.thy ===== *)
theory Program_Start
  imports Remote_Safety Configuration
begin

text \<open>
  From the configuration file to the running program: the start establishes the invariants the
  main loop keeps, and configuration lines are read as written.
\<close>

subsection \<open>The state at the start\<close>

lemma ebind_Inr [simp]: "ebind r k = Inr y \<longleftrightarrow> (\<exists>x. r = Inr x \<and> k x = Inr y)" "ebind (Inr x) k = k x"
  by (cases r) (simp_all add: ebind_def)

definition config_ok :: "door_config \<Rightarrow> bool" where
  "config_ok c \<longleftrightarrow> unat (dc_offset c) < 32 \<and> dc_partner c \<noteq> dc_name c"

definition opens_ok :: "('r \<Rightarrow> bool) \<Rightarrow> ('r \<Rightarrow> nat) \<Rightarrow> 'r open_op \<Rightarrow> bool" where
  "opens_ok ok ow open_reader \<longleftrightarrow> (\<forall>dev rs a i r. open_reader dev rs a i = Some r \<longrightarrow> ok r \<and> ow r = i)"

text \<open>A door as \<open>make_door\<close> leaves it: its readers are its own and can be used.\<close>

definition fresh_door :: "('r \<Rightarrow> nat) \<Rightarrow> (nat \<Rightarrow> 'r) \<Rightarrow> nat \<Rightarrow> door \<Rightarrow> bool" where
  "fresh_door ow heap i d \<longleftrightarrow>
     (\<forall>sd. wf_dr (get_dr sd d) \<and> creds_ok (get_dr sd d) \<and>
        (\<forall>h. dr_reader (get_dr sd d) = Some h \<longrightarrow> h div 2 = i \<and> ow (heap h) = i)) \<and>
     unat (maskOffset d) < 32 \<and> door_lock_timer d = 1 \<and> alarm_timers d = 0 \<and> airLockPartnerLocal d = None \<and>
     airLockPartnerString d \<noteq> Some (doorName d)"

lemma zero_dr_ok: "wf_dr zero_dr" "creds_ok zero_dr" "dr_reader zero_dr = None"
  by (simp_all add: zero_dr_def wf_dr_def creds_ok_def TWO_FACTOR_TIME_def)

lemma open_side_ok:
  assumes "open_side op i h rc heap = Inr (dr, heap')" and "opens_ok ok ow op" and "\<forall>k. ok (heap k)"
  shows "wf_dr dr \<and> creds_ok dr \<and> (\<forall>k. dr_reader dr = Some k \<longrightarrow> k = h \<and> ow (heap' h) = i) \<and>
    (\<forall>k. ok (heap' k)) \<and> (\<forall>k. k \<noteq> h \<longrightarrow> heap' k = heap k)"
proof (cases "rc_mode rc = 0")
  case True
  then show ?thesis using assms zero_dr_ok by (auto simp: open_side_def)
next
  case False
  then obtain r where "op (rc_dev rc) (rc_rs485 rc) (rc_addr rc) i = Some r"
    "dr = zero_dr\<lparr>accessMode := rc_mode rc, dr_reader := Some h\<rparr>" "heap' = heap(h := r)"
    using assms(1) by (auto simp: open_side_def split: option.splits)
  then show ?thesis
    using assms(2,3) by (auto simp: opens_ok_def zero_dr_def wf_dr_def creds_ok_def TWO_FACTOR_TIME_def)
qed

lemma fresh_door_heap:
  "fresh_door ow heap i d \<Longrightarrow> (\<And>h. h div 2 = i \<Longrightarrow> heap' h = heap h) \<Longrightarrow> fresh_door ow heap' i d"
  unfolding fresh_door_def by auto

lemma make_door_ok:
  assumes "make_door op i c heap = Inr (d, heap')" and "opens_ok ok ow op" and "\<forall>k. ok (heap k)" and "config_ok c"
  shows "fresh_door ow heap' i d \<and> (\<forall>k. ok (heap' k)) \<and> (\<forall>k. k div 2 \<noteq> i \<longrightarrow> heap' k = heap k)"
proof -
  obtain ra heap1 rb where a: "open_side op i (2 * i) (dc_A c) heap = Inr (ra, heap1)"
    and b: "open_side op i (2 * i + 1) (dc_B c) heap1 = Inr (rb, heap')"
    and d: "d = (zero_door (dc_name c))\<lparr>readerA := ra, readerB := rb, maskOffset := dc_offset c, maskFull := dc_full c,
            airLockPartnerString := (case dc_partner c of [] \<Rightarrow> None | p # ps \<Rightarrow> if p \<noteq> CHR ''-'' then Some (p # ps) else None),
            lastInput := DI_STATE_IS_DIFF OR 0x0f, door_lock_timer := 1\<rparr>"
    using assms(1) by (auto simp: make_door_def)
  note ra = open_side_ok [OF a assms(2,3)]
  note rb = open_side_ok [OF b assms(2) ra [THEN conjunct2, THEN conjunct2, THEN conjunct2, THEN conjunct1]]
  have "ow (heap' (2 * i)) = ow (heap1 (2 * i))" using rb by simp
  then have "fresh_door ow heap' i d"
    using ra rb assms(4) by (auto simp: fresh_door_def all_sides d zero_door_def config_ok_def split: list.split)
  moreover have "heap' k = heap k" if "k div 2 \<noteq> i" for k
  proof -
    have "k \<noteq> 2 * i" "k \<noteq> 2 * i + 1" using that by auto
    then show ?thesis using ra rb by metis
  qed
  ultimately show ?thesis using rb by blast
qed

lemma read_doors_ok:
  assumes "read_doors op i lines heap = Inr (ds, heap')" and "opens_ok ok ow op" and "\<forall>k. ok (heap k)"
    and "\<forall>line\<in>set lines. \<forall>c. parse_line line = Inr c \<longrightarrow> config_ok c"
  shows "length ds = length lines \<and> (\<forall>j < length ds. fresh_door ow heap' (i + j) (ds ! j)) \<and>
    (\<forall>k. ok (heap' k)) \<and> (\<forall>k. k div 2 < i \<longrightarrow> heap' k = heap k)"
  using assms(1,3,4)
proof (induction lines arbitrary: i heap ds)
  case (Cons line lines)
  obtain c d heap1 ds1 where c: "parse_line line = Inr c" and d: "make_door op i c heap = Inr (d, heap1)"
    and r: "read_doors op (Suc i) lines heap1 = Inr (ds1, heap')" and ds: "ds = d # ds1"
    using Cons.prems(1) by auto
  have d1: "fresh_door ow heap1 i d" "\<forall>k. ok (heap1 k)" "\<forall>k. k div 2 \<noteq> i \<longrightarrow> heap1 k = heap k"
    using make_door_ok [OF d assms(2) Cons.prems(2)] c Cons.prems(3) by auto
  have IH: "length ds1 = length lines" "\<forall>j < length ds1. fresh_door ow heap' (Suc i + j) (ds1 ! j)"
    "\<forall>k. ok (heap' k)" "\<forall>k. k div 2 < Suc i \<longrightarrow> heap' k = heap1 k"
    using Cons.IH [OF r d1(2)] Cons.prems(3) by simp_all
  have "fresh_door ow heap' i d"
  proof (rule fresh_door_heap [OF d1(1)])
    show "heap' h = heap1 h" if "h div 2 = i" for h using IH(4) [rule_format, of h] that by simp
  qed
  then have "\<forall>j < length ds. fresh_door ow heap' (i + j) (ds ! j)"
    using IH(2) unfolding ds by (simp add: All_less_Suc2)
  moreover have "heap' k = heap k" if "k div 2 < i" for k
  proof -
    have "heap' k = heap1 k" using IH(4) that by simp
    also have "\<dots> = heap k" using d1(3) that by simp
    finally show ?thesis .
  qed
  moreover have "length ds = length (line # lines)" using IH(1) by (simp add: ds)
  ultimately show ?case using IH(3) by blast
qed simp

lemma start_wf:
  assumes "start cs addr op args (Some lines) opened heap = Inr s" and "configFile (parse_options addr args) \<noteq> None"
    and "opens_ok ok ow op" and "\<forall>k. ok (heap k)" and "length (filter (is_door_line cs) lines) \<le> 2"
    and "\<forall>line\<in>set (filter (is_door_line cs) lines). \<forall>c. parse_line line = Inr c \<longrightarrow> config_ok c"
  shows "wf_sys ok ow s \<and> creds_sys s \<and> trace s = []"
proof -
  obtain ds heap' where r: "read_doors op 0 (filter (is_door_line cs) lines) heap = Inr (ds, heap')"
    and s: "s = \<lparr>doors = map (link_partner ds) ds, readers = heap', trace = []\<rparr>"
    using assms(1,2) by (auto simp: start_def init_doors_def read_config_def Let_def split: if_splits option.splits prod.splits)
  note ok = read_doors_ok [OF r assms(3,4,6)]
  have n: "length ds \<le> 2" using ok assms(5) by simp
  have door: "door_at s i = link_partner ds (ds ! i)" "fresh_door ow heap' i (ds ! i)" if "i < length ds" for i
    using that ok by (simp_all add: s door_at_def)
  have lp: "get_dr sd (link_partner ds d) = get_dr sd d" "maskOffset (link_partner ds d) = maskOffset d"
    "door_lock_timer (link_partner ds d) = door_lock_timer d" "alarm_timers (link_partner ds d) = alarm_timers d"
    "airLockPartnerLocal (link_partner ds d) = (case airLockPartnerString d of None \<Rightarrow> airLockPartnerLocal d | Some name \<Rightarrow> getDoorByName ds name)"
    for sd d by (cases sd; simp add: link_partner_def split: option.split)+
  have partner: "p < length ds \<and> p \<noteq> i" if i: "i < length ds" and p: "airLockPartnerLocal (link_partner ds (ds ! i)) = Some p" for i p
  proof -
    have f: "airLockPartnerLocal (ds ! i) = None" "airLockPartnerString (ds ! i) \<noteq> Some (doorName (ds ! i))"
      using door(2) [OF i] by (simp_all add: fresh_door_def)
    then obtain name where "airLockPartnerString (ds ! i) = Some name" "getDoorByName ds name = Some p"
      using p by (auto simp: lp split: option.splits)
    then show ?thesis using getDoorByName_less [of ds name p] f by auto
  qed
  have "wf_door (length ds) i (door_at s i) \<and> (\<forall>sd h. dr_reader (get_dr sd (door_at s i)) = Some h \<longrightarrow> ow (readers s h) = i) \<and>
      (\<forall>sd. creds_ok (get_dr sd (door_at s i)))" if i: "i < length ds" for i
    using door [OF i] partner [OF i]
    by (auto simp: wf_door_def fresh_door_def lp(1-4) DOOR_OPEN_TIME_def ALARM_RESEND_TIMER_def s)
  then show ?thesis using n ok by (auto simp: wf_sys_def creds_sys_def s)
qed

subsection \<open>Configuration lines\<close>

lemma strtok_token:
  assumes "tok \<noteq> []" and "\<forall>c\<in>set tok. \<not> is_sep c" and "is_sep b"
  shows "strtok (tok @ b # rest) = (Some tok, rest)"
proof -
  obtain c cs where tok: "tok = c # cs" using assms(1) by (cases tok) auto
  then have "dropWhile is_sep (tok @ b # rest) = tok @ b # rest" using assms(2) by simp
  moreover have "takeWhile (\<lambda>c. \<not> is_sep c) (tok @ b # rest) = tok" "dropWhile (\<lambda>c. \<not> is_sep c) (tok @ b # rest) = b # rest"
    using assms(2,3) by (simp_all add: takeWhile_append2 dropWhile_append2 takeWhile_append dropWhile_append)
  ultimately show ?thesis using tok by (simp add: strtok_def Let_def)
qed

definition token :: "string \<Rightarrow> bool" where
  "token t \<longleftrightarrow> t \<noteq> [] \<and> (\<forall>c\<in>set t. \<not> is_sep c \<and> c \<noteq> CHR 0x00)"

lemma configParse_token: "token tok \<Longrightarrow> is_sep b \<Longrightarrow> configParse (tok @ b # rest) = Inr (tok, rest)"
  by (simp add: configParse_def token_def strtok_token)

text \<open>Decimal numbers.\<close>

lemma of_char_hex_digit: "d < 10 \<Longrightarrow> (of_char (hex_digit False d) :: nat) = 48 + d"
  by (simp add: hex_digit_def)

lemma num_string_chars: "c \<in> set (num_string 10 n) \<Longrightarrow> 48 \<le> (of_char c :: nat) \<and> (of_char c :: nat) < 58"
proof (induction "10 :: nat" n rule: num_string.induct)
  case (1 n)
  have "n mod 10 < 10" by simp
  then show ?case
    using 1 of_char_hex_digit [of n] of_char_hex_digit [of "n mod 10"]
    by (cases "n < 10") (auto simp: num_string.simps [of 10 n])
qed

lemma num_string_token: "token (num_string 10 n)"
proof -
  have "num_string 10 n \<noteq> []" by (simp add: num_string.simps [of 10 n])
  moreover have "\<not> is_sep c \<and> c \<noteq> CHR 0x00" if "c \<in> set (num_string 10 n)" for c
  proof -
    have "48 \<le> (of_char c :: nat)" using num_string_chars [OF that] by simp
    then show ?thesis by (auto simp: is_sep_def)
  qed
  ultimately show ?thesis by (simp add: token_def)
qed

lemma num_string_head: "0 < n \<Longrightarrow> hd (num_string 10 n) \<noteq> CHR ''0''"
proof (induction "10 :: nat" n rule: num_string.induct)
  case (1 n)
  show ?case
  proof (cases "n < 10")
    case True
    then have "(of_char (hex_digit False n) :: nat) \<noteq> of_char (CHR ''0'')" using 1(2) by (simp add: of_char_hex_digit)
    then show ?thesis using True by (auto simp: num_string.simps [of 10 n])
  next
    case False
    have "num_string 10 (n div 10) \<noteq> []" by (simp add: num_string.simps [of 10 "n div 10"])
    then show ?thesis using 1 False by (simp add: num_string.simps [of 10 n])
  qed
qed

lemma strtoll_num: "int n < 2 ^ 63 \<Longrightarrow> strtoll (num_string 10 n) = int n"
proof -
  assume n: "int n < 2 ^ 63"
  obtain c cs where s: "num_string 10 n = c # cs" by (cases "num_string 10 n") (auto simp: num_string.simps [of 10 n] split: if_splits)
  have c: "48 \<le> (of_char c :: nat)" "(of_char c :: nat) < 58" using num_string_chars [of c n] s by simp_all
  then have ns: "\<not> isspace c" "c \<noteq> CHR ''-''" "c \<noteq> CHR ''+''" by (auto simp: isspace_def)
  have "unsigned_val (num_string 10 n) = base_val 10 (num_string 10 n)"
  proof (cases "n = 0")
    case True
    then show ?thesis by (simp add: num_string.simps [of 10 0] unsigned_val_def)
  next
    case False
    then have "c \<noteq> CHR ''0''" using num_string_head [of n] s by simp
    then show ?thesis by (simp add: unsigned_val_def s split: list.split)
  qed
  also have "\<dots> = int n" by (rule num_string_val) simp_all
  finally show ?thesis using ns n unfolding strtoll_def s by (simp add: LLONG_MAX_def)
qed

text \<open>The line of a door as the configuration file has it.\<close>

definition render_reader :: "reader_config \<Rightarrow> string" where
  "render_reader rc = num_string 10 (unat (rc_mode rc)) @ '' '' @ rc_dev rc @ '' '' @
     (if rc_rs485 rc then ''1'' else ''0'') @ '' '' @ num_string 10 (unat (rc_addr rc)) @ '' ''"

definition render_line :: "door_config \<Rightarrow> string" where
  "render_line c = dc_name c @ '' '' @ render_reader (dc_A c) @ render_reader (dc_B c) @
     num_string 10 (unat (dc_offset c)) @ '' '' @ num_string 10 (unat (dc_full c)) @ '' '' @ dc_partner c @ [CHR 0x0a]"

lemma word_num: "(word_of_int (strtoll (num_string 10 (unat w))) :: 'a::len word) = w" if "LENGTH('a) \<le> 32"
proof -
  have "unat w < 2 ^ LENGTH('a)" by simp
  also have "(2 :: nat) ^ LENGTH('a) \<le> 2 ^ 32" using that by (intro power_increasing) simp_all
  finally have "int (unat w) < int (2 ^ 32)" by (simp only: of_nat_less_iff)
  also have "int (2 ^ 32) < 2 ^ 63" by simp
  finally show ?thesis by (simp only: strtoll_num) simp
qed

lemma word_nums:
  "(word_of_int (strtoll (num_string 10 (unat a))) :: u8) = a" "(word_of_int (strtoll (num_string 10 (unat b))) :: u32) = b"
  by (rule word_num, simp)+

lemma blank_sep: "is_sep CHR '' ''" "is_sep CHR 0x0a" "\<not> is_sep CHR ''1''" "\<not> is_sep CHR ''0''"
  by (simp_all add: is_sep_def)

lemma parse_reader_render:
  assumes "token (rc_dev rc)"
  shows "parse_reader (render_reader rc @ rest) = Inr (rc, rest)"
proof -
  let ?rs = "if rc_rs485 rc then ''1'' else ''0''"
  have t: "token ?rs" by (simp add: token_def blank_sep)
  have v: "((word_of_int (strtoll ?rs) :: u8) \<noteq> 0) = rc_rs485 rc"
  proof -
    have "strtoll ''1'' = 1" "strtoll ''0'' = 0" by code_simp+
    then show ?thesis by simp
  qed
  have p: "configParse (tok @ '' '' @ s) = Inr (tok, s)" if "token tok" for tok s
    using configParse_token [OF that blank_sep(1)] by simp
  have "render_reader rc @ rest = num_string 10 (unat (rc_mode rc)) @ '' '' @ rc_dev rc @ '' '' @ ?rs @ '' '' @
      num_string 10 (unat (rc_addr rc)) @ '' '' @ rest"
    by (simp add: render_reader_def)
  then show ?thesis
    unfolding parse_reader_def by (simp only: p assms t num_string_token ebind_Inr(2) prod.case v word_nums) simp
qed

lemma parse_render_line:
  assumes "token (dc_name c)" and "token (rc_dev (dc_A c))" and "token (rc_dev (dc_B c))" and "token (dc_partner c)"
  shows "parse_line (render_line c) = Inr c"
proof -
  have nul: "CHR 0x00 \<notin> set tok" if "token tok" for tok using that by (auto simp: token_def)
  have r: "CHR 0x00 \<notin> set (render_reader rc)" if "token (rc_dev rc)" for rc
    using nul [OF num_string_token] nul [OF that] by (simp add: render_reader_def)
  have "CHR 0x00 \<notin> set (render_line c)"
    using nul [OF num_string_token] r assms nul by (simp add: render_line_def)
  then have s: "cstring (render_line c) = render_line c"
    by (auto simp: cstring_def takeWhile_eq_all_conv)
  have p: "configParse (tok @ '' '' @ s) = Inr (tok, s)" if "token tok" for tok s
    using configParse_token [OF that blank_sep(1)] by simp
  have q: "configParse (tok @ [CHR 0x0a]) = Inr (tok, [])" if "token tok" for tok
    using configParse_token [OF that blank_sep(2), of "[]"] by simp
  show ?thesis
    unfolding parse_line_def s unfolding render_line_def
    by (simp only: p q assms num_string_token ebind_Inr(2) prod.case parse_reader_render) (simp add: word_nums)
qed



text \<open>
  Property C29. Started without a configuration file, with the door given by the options, the
  program controls no door at all: \<open>doorsCount\<close> stays 0, and a cycle of the main loop does
  nothing.
\<close>

theorem single_door_start_is_idle:
  assumes "start char_signed addr open_reader args file opened heap = Inr s"
    and "configFile (parse_options addr args) = None"
  shows "doors s = [] \<and> mainLoop rsig rclear rget db rd s = Inr s"
proof -
  have d: "doors s = []"
    using assms by (auto simp: start_def init_doors_def Let_def split: if_splits)
  have "mask 0 = (0 :: u32)" by simp
  then show ?thesis
    using d by (simp add: mainLoop_def check_inputs_def get_input_state_def upt_rec Let_def)
qed

definition open_idesco :: "(string \<Rightarrow> bool \<Rightarrow> int) \<Rightarrow> idesco_reader \<Rightarrow> idesco_reader open_op" where
  "open_idesco portsetup junk = (\<lambda>dev rs a i. init_reader (portsetup dev rs) junk rs a i)"

lemma open_idesco_ok: "idesco_ok junk \<Longrightarrow> opens_ok idesco_ok rd_user_data (open_idesco portsetup junk)"
  by (auto simp: opens_ok_def open_idesco_def init_reader_def idesco_ok_def split: if_splits)

theorem single_door_start_is_idle_witness:
  "\<exists>s. start True 0x7f (open_idesco (\<lambda>_ _. 3) (sample_link 0)) [(CHR ''d'', ''db''), (CHR ''n'', ''front''), (CHR ''m'', ''1''), (CHR ''s'', ''/dev/ttyS2'')]
      None True sample_link = Inr s \<and> doors s = []"
proof -
  let ?args = "[(CHR ''d'', ''db''), (CHR ''n'', ''front''), (CHR ''m'', ''1''), (CHR ''s'', ''/dev/ttyS2'')]"
  have one: "strtoll ''1'' = 1" by code_simp
  have c: "configFile (parse_options 0x7f ?args) = None" by (simp add: parse_options_def default_options_def parse_option_def one)
  have "\<exists>s. start True 0x7f (open_idesco (\<lambda>_ _. 3) (sample_link 0)) ?args None True sample_link = Inr s"
    by (simp add: start_def parse_options_def default_options_def parse_option_def usage_error_def init_doors_def valid_mode_def
        open_side_def open_idesco_def init_reader_def one Let_def)
  then obtain s where s: "start True 0x7f (open_idesco (\<lambda>_ _. 3) (sample_link 0)) ?args None True sample_link = Inr s" by blast
  then show ?thesis using single_door_start_is_idle [OF s c] by blast
qed

text \<open>
  From the configuration file to any number of passes, when the state at the start is known.
\<close>

lemma started_program_safe:
  assumes "start cs addr (open_idesco portsetup junk) args (Some lines) opened heap = Inr s"
    and "configFile (parse_options addr args) \<noteq> None" and "idesco_ok junk" and "\<forall>k. idesco_ok (heap k)"
    and "length (filter (is_door_line cs) lines) \<le> 2"
    and "\<forall>line\<in>set (filter (is_door_line cs) lines). \<forall>c. parse_line line = Inr c \<longrightarrow> config_ok c"
    and "\<forall>(db, rd, dg)\<in>set ins. db_sys_ok db s \<and> (\<forall>bytes. dg = Some bytes \<longrightarrow> length bytes < 128)"
  shows "\<exists>t d'. program_run cs net sql ins (s, d) = Inr (t, d') \<and> wf_sys idesco_ok rd_user_data t \<and> creds_sys t"
proof -
  have "good s" using start_wf [OF assms(1,2) open_idesco_ok [OF assms(3)] assms(4,5,6)] by blast
  then show ?thesis
    using program_run_ok [of s ins cs net sql d] assms(7) by (auto simp: returns_iff Remote_Control.BUF_SIZE_def)
qed

end
