(* ===== verification/Whole_Program.thy ===== *)
theory Whole_Program
  imports Program_Start
begin

text \<open>
  All of \<open>main\<close> (\<open>door_controller/main.c\<close>): the start from options and configuration file,
  the remote control with its table of administrative locks, and any number of passes of the
  endless loop.
\<close>

subsection \<open>The remote control and the loop\<close>

text \<open>
  The remote control runs when a port and a path are given. A result \<open>Inl n\<close> ends the program
  with the code \<open>n\<close>; otherwise the result has the variable \<open>port\<close>, which is 0 when the network
  is not to be checked. The socket \<open>sh\<close> is what \<open>open_network\<close> returns.
\<close>

definition start_remote ::
  "'r signal_op \<Rightarrow> 'd sql_op \<Rightarrow> ('d \<Rightarrow> string \<Rightarrow> state_row list) \<Rightarrow> options \<Rightarrow> int \<Rightarrow> bool \<Rightarrow> ('r, 'd) ctl \<Rightarrow>
    (int + int \<times> ('r, 'd) ctl) cres" where
  "start_remote rsig sql sql_rows opt sh opened st =
     (if 0 < port opt \<and> port opt \<le> 65535 \<and> stateDbPath opt \<noteq> None
      then cbind (init_remote_control rsig sql sql_rows sh opened st) (\<lambda>(ret, st).
           if ret < 0 then Inr (Inl 1) else Inr (Inr (port opt, st)))
      else Inr (Inr (0, st)))"

text \<open>
  The program with the OSDP driver. \<open>opened\<close> and \<open>state_opened\<close> tell which database opens,
  \<open>d\<close> is the content of the state database and \<open>ins\<close> the inputs of the passes.
\<close>

definition main_program ::
  "bool \<Rightarrow> u8 \<Rightarrow> idesco_reader open_op \<Rightarrow> 'd sql_op \<Rightarrow> ('d \<Rightarrow> string \<Rightarrow> state_row list) \<Rightarrow> int \<Rightarrow> bool \<Rightarrow> bool \<Rightarrow>
    (char \<times> string) list \<Rightarrow> string list option \<Rightarrow> (nat \<Rightarrow> idesco_reader) \<Rightarrow> 'd \<Rightarrow>
    (auth_db \<times> gpio_result \<times> string option) list \<Rightarrow> (int + (idesco_reader, 'd) ctl) cres" where
  "main_program cs addr open_reader sql sql_rows sh opened state_opened args file heap d ins =
     (case start cs addr open_reader args file opened heap of
        Inl n \<Rightarrow> Inr (Inl n)
      | Inr s \<Rightarrow>
          cbind (start_remote (reader_signal cs) sql sql_rows (parse_options addr args) sh state_opened (s, d)) (\<lambda>r.
          case r of
            Inl n \<Rightarrow> Inr (Inl n)
          | Inr (p, st) \<Rightarrow> cbind (program_run cs (p \<noteq> 0) sql ins st) (\<lambda>st. Inr (Inr st))))"

subsection \<open>Every part keeps the invariants\<close>

context reader_signals begin

lemma restore_rows_ok:
  assumes "wf s" and "\<forall>r\<in>set rows. readable r"
  shows "returns (cfold (restore_row rsig) rows s) (kept s)"
proof (rule returns_cfold)
  fix r t assume r: "r \<in> set rows" and t: "kept s t"
  then have "returns (restore_row rsig r t) (kept t)"
    using assms(2) by (intro restore_row_ok) (auto simp: kept_def readable_def)
  then show "returns (restore_row rsig r t) (kept s)"
    using t kept_trans by (auto elim!: returns_mono)
qed (rule kept_refl [OF assms(1)])

lemma init_remote_control_ok:
  assumes "wf s" and "\<forall>d'. \<forall>r\<in>set (sql_rows d' select_sql). readable r"
  shows "returns (init_remote_control rsig sql sql_rows sh opened (s, d)) (\<lambda>x. kept s (fst (snd x)))"
proof -
  have "returns (cfold (restore_row rsig) (sql_rows d' select_sql) s) (kept s)" for d'
    using assms by (intro restore_rows_ok) auto
  then show ?thesis
    using kept_refl [OF assms(1)] by (simp add: init_remote_control_def case_prod_beta Let_def)
qed

lemma start_remote_ok:
  assumes "wf s" and "\<forall>d'. \<forall>r\<in>set (sql_rows d' select_sql). readable r"
  shows "returns (start_remote rsig sql sql_rows opt sh opened (s, d)) (\<lambda>x. \<forall>p t d'. x = Inr (p, t, d') \<longrightarrow> kept s t)"
  unfolding start_remote_def
proof (intro returns_if returns_bind [OF init_remote_control_ok [OF assms(1), where sql_rows = sql_rows]])
  show "returns (Inr (Inr (0, s, d))) (\<lambda>x. \<forall>p t d'. x = Inr (p, t, d') \<longrightarrow> kept s t)"
    using kept_refl [OF assms(1)] by simp
qed (use assms(2) in \<open>auto split: prod.split\<close>)

end

lemma start_good:
  assumes s: "start cs addr op args file opened heap = Inr s" and op: "opens_ok ok ow op" and heap: "\<forall>k. ok (heap k)"
    and lines: "\<forall>lines. file = Some lines \<longrightarrow> length (filter (is_door_line cs) lines) \<le> 2 \<and>
      (\<forall>line\<in>set (filter (is_door_line cs) lines). \<forall>c. parse_line line = Inr c \<longrightarrow> config_ok c)"
  shows "wf_sys ok ow s \<and> creds_sys s"
proof (cases "configFile (parse_options addr args)")
  case None
  obtain ds n heap' where i: "init_doors cs op (parse_options addr args) file heap = Inr (ds, n, heap')"
    and s': "s = \<lparr>doors = take n ds, readers = heap', trace = []\<rparr>"
    using s by (auto simp: start_def Let_def split: if_splits)
  obtain rc f where e: "init_doors cs op (parse_options addr args) file heap =
      (if \<not> valid_mode (opt_accessMode (parse_options addr args)) then Inl 1
       else ebind (open_side op 0 0 rc heap) (\<lambda>(ra, heap). Inr (f ra, 0, heap)))"
    using None by (simp add: init_doors_def Let_def)
  have "n = 0" "\<exists>ra. open_side op 0 0 rc heap = Inr (ra, heap')"
    using i unfolding e by (cases "open_side op 0 0 rc heap"; auto split: if_splits)+
  then obtain ra where "open_side op 0 0 rc heap = Inr (ra, heap')" by blast
  then have "\<forall>k. ok (heap' k)" using open_side_ok [OF _ op heap] by blast
  then show ?thesis using \<open>n = 0\<close> by (simp add: s' wf_sys_def creds_sys_def)
next
  case (Some f)
  then obtain ls where "file = Some ls"
    using s by (auto simp: start_def init_doors_def Let_def split: if_splits option.splits)
  then show ?thesis using start_wf [OF _ _ op heap] s lines Some by auto
qed

subsection \<open>A sample start\<close>

definition sample_config :: door_config where
  "sample_config = \<lparr>dc_name = ''doorA'', dc_A = \<lparr>rc_mode = 16, rc_dev = ''/dev/ttyS2'', rc_rs485 = True, rc_addr = 127\<rparr>,
     dc_B = \<lparr>rc_mode = 0, rc_dev = ''-'', rc_rs485 = False, rc_addr = 0\<rparr>, dc_offset = 0, dc_full = 1, dc_partner = ''-''\<rparr>"

definition sample_args :: "(char \<times> string) list" where
  "sample_args = [(CHR ''d'', ''db''), (CHR ''c'', ''cfg''), (CHR ''p'', ''9999''), (CHR ''D'', ''state'')]"

lemma sample_parse: "parse_line (render_line sample_config) = Inr sample_config"
  by (rule parse_render_line) (simp_all add: sample_config_def token_def is_sep_def)

lemma sample_start:
  obtains s where "start True 0x7f (open_idesco (\<lambda>_ _. 3) (sample_link 0)) sample_args (Some [render_line sample_config]) True sample_link = Inr s"
    "length (doors s) = 1" "db_sys_ok (sample_db 7) s"
proof -
  let ?op = "open_idesco (\<lambda>_ _. 3) (sample_link 0)"
  have o: "configFile (parse_options 0x7f sample_args) = Some ''cfg''" "databasePath (parse_options 0x7f sample_args) = Some ''db''"
    by (simp_all add: sample_args_def parse_options_def default_options_def parse_option_def)
  have dl: "is_door_line True (render_line sample_config)"
    by (simp add: is_door_line_def render_line_def sample_config_def)
  have "\<exists>d heap. make_door ?op 0 sample_config sample_link = Inr (d, heap) \<and> doorName d = ''doorA'' \<and> airLockPartnerString d = None"
    by (auto simp: make_door_def open_side_def open_idesco_def init_reader_def sample_config_def zero_door_def ebind_def)
  then obtain d heap where d: "make_door ?op 0 sample_config sample_link = Inr (d, heap)" "doorName d = ''doorA''" "airLockPartnerString d = None"
    by blast
  let ?s = "\<lparr>doors = [d], readers = heap, trace = []\<rparr>"
  have "start True 0x7f ?op sample_args (Some [render_line sample_config]) True sample_link = Inr ?s"
    using d(3) by (simp add: start_def usage_error_def init_doors_def o read_config_def dl sample_parse d(1) link_partner_def Let_def)
  moreover have "db_sys_ok (sample_db 7) ?s"
    using d(2) by (auto simp: db_sys_ok_def db_ok_def door_at_def sample_rows intro!: sample_row_ok_all)
  ultimately show ?thesis by (intro that [of ?s]) simp_all
qed

subsection \<open>Properties\<close>



end
