(* ===== verification/Event_Send.thy ===== *)
theory Event_Send
  imports Events C_Text
begin

text \<open>
  Rendering and sending of events (\<open>door_controller/eventSend.c\<close>): the log line, the message to
  the log host, and the \<open>wget\<close> command line built in a 256 byte buffer and handed to
  \<open>system\<close>. Sockets and threads are outside: a message is the bytes given to \<open>send\<close>.
\<close>

definition BUF_SIZE :: nat where "BUF_SIZE = 256"

record event_config =
  eventHost :: "string option"
  logHost :: "string option"
  logPort :: "string option"

record sent_event =
  syslog_line :: "string option"
  tcp_message :: "string option"
  system_cmd :: "string option"

subsection \<open>Texts\<close>

definition hex_mask :: "'a::len word \<Rightarrow> string" where
  "hex_mask m = ''0x'' @ num_string 16 (unat m)"

definition newline :: string where
  "newline = [CHR 0x0a]"

fun event_door :: "event \<Rightarrow> string option" where
  "event_door (EVENT_AUTH_OK d m u c) = d"
| "event_door (EVENT_AUTH_ERR d u c) = d"
| "event_door (EVENT_AUTH_ERR_EXPIRE d u c) = d"
| "event_door (EVENT_AUTH_ERR_PIN d u c) = d"
| "event_door (EVENT_MANUAL_OPEN d) = Some d"
| "event_door (EVENT_DOOR_UNLOCK d m) = Some d"
| "event_door (EVENT_DOOR_LOCK d m) = Some d"
| "event_door (EVENT_DOOR_IS_OPEN d) = Some d"
| "event_door (EVENT_DOOR_IS_CLOSE d) = Some d"
| "event_door (EVENT_DOOR_IS_UNLOCK d) = Some d"
| "event_door (EVENT_DOOR_IS_LOCK d) = Some d"
| "event_door (EVENT_DOOR_EMERGENCY_ACTIVE d) = Some d"
| "event_door (EVENT_DOOR_EMERGENCY_INACTIVE d) = Some d"
| "event_door (EVENT_DOOR_OPEN_ALARM d m) = Some d"
| "event_door (EVENT_REMOTE_CTRL d t a x) = d"

definition denied_line :: "string option \<Rightarrow> string option \<Rightarrow> string \<Rightarrow> string \<Rightarrow> string" where
  "denied_line d u c suffix =
     (case u of
        Some user \<Rightarrow> ''ACCESS FOR '' @ str_arg d @ '' DENIED FOR: '' @ user @ '' (card=0x'' @ c @ '')'' @ suffix @ newline
      | None \<Rightarrow> ''ACCESS FOR '' @ str_arg d @ '' DENIED FOR: card=0x'' @ c @ newline)"

fun log_line :: "event \<Rightarrow> string" where
  "log_line (EVENT_AUTH_OK d m u c) =
     ''ACCESS FOR '' @ str_arg d @ '' (door_mask='' @ hex_mask m @ '') GRANTED FOR: '' @ str_arg u @ '' (card=0x'' @ c @ '')'' @ newline"
| "log_line (EVENT_AUTH_ERR d u c) = denied_line d u c []"
| "log_line (EVENT_AUTH_ERR_EXPIRE d u c) = denied_line d u c '' expire''"
| "log_line (EVENT_AUTH_ERR_PIN d u c) = denied_line d u c '' invalid pin''"
| "log_line (EVENT_MANUAL_OPEN d) = ''MANUAL OPEN '' @ d @ newline"
| "log_line (EVENT_DOOR_UNLOCK d m) = ''DOOR UNLOCK '' @ d @ '' (door_mask='' @ hex_mask m @ '')'' @ newline"
| "log_line (EVENT_DOOR_LOCK d m) = ''DOOR LOCK '' @ d @ '' (door_mask='' @ hex_mask m @ '')'' @ newline"
| "log_line (EVENT_DOOR_IS_OPEN d) = ''DOOR IS OPEN '' @ d @ newline"
| "log_line (EVENT_DOOR_IS_CLOSE d) = ''DOOR IS CLOSE '' @ d @ newline"
| "log_line (EVENT_DOOR_IS_UNLOCK d) = ''DOOR IS UNLOCK '' @ d @ newline"
| "log_line (EVENT_DOOR_IS_LOCK d) = ''DOOR IS LOCK '' @ d @ newline"
| "log_line (EVENT_DOOR_EMERGENCY_ACTIVE d) = ''DOOR EMERGENCY OPEN IS ACTIVE '' @ d @ newline"
| "log_line (EVENT_DOOR_EMERGENCY_INACTIVE d) = ''DOOR EMERGENCY OPEN IS INACTIVE '' @ d @ newline"
| "log_line (EVENT_DOOR_OPEN_ALARM d m) = ''DOOR OPEN ALARM FOR '' @ d @ '' (mask='' @ hex_mask m @ '')'' @ newline"
| "log_line (EVENT_REMOTE_CTRL d t a x) =
     ''REMOTE CONTROL FOR '' @ str_arg d @ '': '' @ str_arg t @ '' '' @ str_arg a @ '' '' @ str_arg x @ newline"

text \<open>
  The texts appended to the command, one per \<open>snprintf\<close>. \<open>strstr\<close> is only called with the
  door of an authorisation that may be \<open>NULL\<close>.
\<close>

definition mask_part :: "string option \<Rightarrow> u32 \<Rightarrow> string list cres" where
  "mask_part d m =
     (case d of
        None \<Rightarrow> Inl Null_pointer
      | Some d \<Rightarrow> Inr (if CHR ''%'' \<in> set d then [''&door_mask='' @ dec_string (sint m)] else []))"

definition denied_parts :: "string option \<Rightarrow> string \<Rightarrow> string list" where
  "denied_parts u c = (case u of Some user \<Rightarrow> [''&user='' @ user] | None \<Rightarrow> []) @ [''&card='' @ c]"

fun cmd_parts :: "event \<Rightarrow> string list cres" where
  "cmd_parts (EVENT_AUTH_OK d m u c) =
     cbind (mask_part d m) (\<lambda>ps. Inr (ps @ [''&user='' @ str_arg u @ ''&card='' @ c]))"
| "cmd_parts (EVENT_AUTH_ERR d u c) = Inr (denied_parts u c)"
| "cmd_parts (EVENT_AUTH_ERR_EXPIRE d u c) = Inr (denied_parts u c)"
| "cmd_parts (EVENT_AUTH_ERR_PIN d u c) = Inr (denied_parts u c)"
| "cmd_parts (EVENT_DOOR_UNLOCK d m) = mask_part (Some d) m"
| "cmd_parts (EVENT_DOOR_LOCK d m) = mask_part (Some d) m"
| "cmd_parts (EVENT_REMOTE_CTRL d t a x) =
     Inr [''&type='' @ str_arg t @ ''&action='' @ str_arg a @ ''&arg='' @ str_arg x]"
| "cmd_parts _ = Inr []"

subsection \<open>Sending\<close>

text \<open>
  The message of \<open>remotePrintf\<close>: \<open>vsnprintf\<close> stores at most 255 characters, but \<open>len\<close> is
  the length of the whole text, and \<open>tcpSend\<close> hands that many bytes of the array to \<open>send\<close>.
  The byte after the stored text is the terminator.
\<close>

definition remotePrintf :: "string \<Rightarrow> string cres" where
  "remotePrintf line =
     (if length line < BUF_SIZE then Inr line
      else if length line = BUF_SIZE then Inr (take (BUF_SIZE - 1) line @ [CHR 0x00])
      else Inl Out_of_bounds)"

text \<open>
  \<open>snprintf(cmdBuf + bufPos, BUF_SIZE - bufPos, ...)\<close>. Once \<open>bufPos\<close> has passed the end the
  size is negative, as \<open>size_t\<close> huge, and the text is written beyond the buffer.
\<close>

definition put_part :: "string \<Rightarrow> string \<times> nat \<Rightarrow> (string \<times> nat) cres" where
  "put_part text = (\<lambda>(cmdBuf, bufPos).
     if bufPos > BUF_SIZE then Inl Out_of_bounds
     else if bufPos = BUF_SIZE then Inr (cmdBuf, bufPos + length text)
     else Inr (snprintf_at BUF_SIZE cmdBuf bufPos text))"

definition no_event :: sent_event where
  "no_event = \<lparr>syslog_line = None, tcp_message = None, system_cmd = None\<rparr>"

definition cmd_head :: "event_config \<Rightarrow> event \<Rightarrow> (string \<times> nat) cres" where
  "cmd_head cfg ev =
     (case eventHost cfg of
        None \<Rightarrow> Inr ([], 0)
      | Some host \<Rightarrow>
          cbind (fetch eventNames (event_type ev)) (\<lambda>name.
          Inr (snprintf_at BUF_SIZE [] 0 (''wget -q -O /dev/null '' @ CHR 0x27 # ''http://'' @ host @ ''/event?type='' @ name))))"

definition sendEvent :: "event_config \<Rightarrow> event \<Rightarrow> sent_event cres" where
  "sendEvent cfg ev =
     cbind (cmd_head cfg ev) (\<lambda>(cmdBuf, bufPos).
     if bufPos \<ge> BUF_SIZE then Inr no_event
     else cbind (if logHost cfg \<noteq> None \<and> logPort cfg \<noteq> None
                 then cbind (remotePrintf (log_line ev)) (\<lambda>msg. Inr (Some msg)) else Inr None) (\<lambda>msg.
          let out = no_event\<lparr>syslog_line := Some (log_line ev), tcp_message := msg\<rparr>
          in cbind (cmd_parts ev) (\<lambda>parts.
             cbind (cfold put_part parts (cmdBuf, bufPos)) (\<lambda>(cmdBuf, bufPos).
             if bufPos \<ge> BUF_SIZE then Inr out
             else cbind (put_part (CHR 0x27 # '' &'') (cmdBuf, bufPos)) (\<lambda>(cmdBuf, bufPos).
                  if bufPos \<ge> BUF_SIZE then Inr out
                  else Inr (if eventHost cfg \<noteq> None then out\<lparr>system_cmd := Some cmdBuf\<rparr> else out))))))"

subsection \<open>Lemmas\<close>

lemma put_part_fits:
  "length buf = pos \<Longrightarrow> pos + length text < BUF_SIZE \<Longrightarrow> put_part text (buf, pos) = Inr (buf @ text, pos + length text)"
  by (simp add: put_part_def snprintf_at_def BUF_SIZE_def)

lemma put_parts_fit:
  "length buf + length (concat parts) < BUF_SIZE \<Longrightarrow>
     cfold put_part parts (buf, length buf) = Inr (buf @ concat parts, length buf + length (concat parts))"
proof (induction parts arbitrary: buf)
  case (Cons p ps)
  have "cfold put_part ps (buf @ p, length (buf @ p)) = Inr ((buf @ p) @ concat ps, length (buf @ p) + length (concat ps))"
    using Cons.prems by (intro Cons.IH) simp
  then show ?case using Cons.prems by (simp add: put_part_fits add.assoc)
qed simp

text \<open>The position counts the characters of the whole text.\<close>

lemma put_part_pos: "put_part text (buf, pos) = Inr (buf', pos') \<Longrightarrow> pos' = pos + length text"
  by (auto simp: put_part_def snprintf_at_def split: if_splits)

lemma put_parts_pos: "cfold put_part parts (buf, pos) = Inr (buf', pos') \<Longrightarrow> pos' = pos + length (concat parts)"
proof (induction parts arbitrary: buf pos)
  case (Cons p ps)
  then obtain b q where "put_part p (buf, pos) = Inr (b, q)" "cfold put_part ps (b, q) = Inr (buf', pos')"
    by (auto simp: cres_simps)
  then show ?case using Cons.IH put_part_pos by fastforce
qed simp

definition event_cmd :: "string \<Rightarrow> string \<Rightarrow> string list \<Rightarrow> string" where
  "event_cmd host name parts =
     ''wget -q -O /dev/null '' @ CHR 0x27 # ''http://'' @ host @ ''/event?type='' @ name @ concat parts @ CHR 0x27 # '' &''"

lemma sendEvent_cmd:
  assumes "eventHost cfg = Some host" and "event_type ev < 14" and "cmd_parts ev = Inr parts" and "length (log_line ev) < 256"
    and "cmd = event_cmd host (eventNames ! event_type ev) parts"
  shows "if length cmd < 256
    then sendEvent cfg ev = Inr \<lparr>syslog_line = Some (log_line ev),
      tcp_message = (if logHost cfg \<noteq> None \<and> logPort cfg \<noteq> None then Some (log_line ev) else None), system_cmd = Some cmd\<rparr>
    else \<forall>out. sendEvent cfg ev = Inr out \<longrightarrow> system_cmd out = None"
proof -
  let ?name = "eventNames ! event_type ev"
  let ?head = "''wget -q -O /dev/null '' @ CHR 0x27 # ''http://'' @ host @ ''/event?type='' @ ?name"
  have n: "event_type ev < length eventNames" using assms(2) by (simp add: eventNames_def)
  have cmd: "cmd = (?head @ concat parts) @ CHR 0x27 # '' &''" by (simp add: assms(5) event_cmd_def)
  have head: "cmd_head cfg ev = Inr (take 255 ?head, length ?head)"
    using n by (simp add: cmd_head_def assms(1) fetch_def snprintf_at_def BUF_SIZE_def)
  define msg where "msg = (if logHost cfg \<noteq> None \<and> logPort cfg \<noteq> None then Some (log_line ev) else None)"
  have msg: "(if logHost cfg \<noteq> None \<and> logPort cfg \<noteq> None
                 then cbind (remotePrintf (log_line ev)) (\<lambda>msg. Inr (Some msg)) else Inr None) = Inr msg"
    using assms(4) by (simp add: remotePrintf_def BUF_SIZE_def msg_def)
  define out where "out = no_event\<lparr>syslog_line := Some (log_line ev), tcp_message := msg\<rparr>"
  have send: "sendEvent cfg ev = (if length ?head \<ge> BUF_SIZE then Inr no_event else
      cbind (cfold put_part parts (take 255 ?head, length ?head)) (\<lambda>(cmdBuf, bufPos).
             if bufPos \<ge> BUF_SIZE then Inr out
             else cbind (put_part (CHR 0x27 # '' &'') (cmdBuf, bufPos)) (\<lambda>(cmdBuf, bufPos).
                  if bufPos \<ge> BUF_SIZE then Inr out
                  else Inr (if eventHost cfg \<noteq> None then out\<lparr>system_cmd := Some cmdBuf\<rparr> else out))))"
    unfolding sendEvent_def head msg by (simp only: cbind_simps prod.case assms(3) Let_def out_def)
  show ?thesis
  proof (cases "length cmd < 256")
    case True
    then have l: "length ?head + length (concat parts) + 3 < 256" by (simp add: cmd)
    then have "cfold put_part parts (take 255 ?head, length ?head) = Inr (?head @ concat parts, length (?head @ concat parts))"
      using put_parts_fit [of ?head parts] by (simp add: BUF_SIZE_def)
    moreover have "put_part (CHR 0x27 # '' &'') (?head @ concat parts, length (?head @ concat parts)) = Inr (cmd, length cmd)"
      using put_part_fits [of "?head @ concat parts" _ "CHR 0x27 # '' &''"] l by (simp add: cmd BUF_SIZE_def)
    ultimately show ?thesis
      using True l assms(1) unfolding send by (simp add: BUF_SIZE_def out_def no_event_def msg_def)
  next
    case False
    have "system_cmd o' = None" if "sendEvent cfg ev = Inr o'" for o'
      using that False unfolding send
      by (auto simp: cres_simps cmd BUF_SIZE_def out_def no_event_def split: if_splits dest!: put_parts_pos put_part_pos)
    then show ?thesis using False by simp
  qed
qed

text \<open>
  Property C22. With an event host configured, an event whose command fits the buffer logs its
  line and runs exactly the command with the event's name and all its parts; when the command
  does not fit, none is run, truncated or not.
\<close>

theorem sendEvent_command:
  assumes "eventHost cfg = Some host" and "event_type ev < 14" and "cmd_parts ev = Inr parts" and "length (log_line ev) < 256"
    and "cmd = event_cmd host (eventNames ! event_type ev) parts"
  shows "if length cmd < 256
    then sendEvent cfg ev = Inr \<lparr>syslog_line = Some (log_line ev),
      tcp_message = (if logHost cfg \<noteq> None \<and> logPort cfg \<noteq> None then Some (log_line ev) else None), system_cmd = Some cmd\<rparr>
    else \<forall>out. sendEvent cfg ev = Inr out \<longrightarrow> system_cmd out = None"
  using assms by (rule sendEvent_cmd)

definition sample_cfg :: event_config where
  "sample_cfg = \<lparr>eventHost = Some ''h'', logHost = None, logPort = None\<rparr>"

theorem sendEvent_command_witness:
  "\<exists>out. sendEvent sample_cfg (EVENT_DOOR_UNLOCK ''lift%'' 4) = Inr out \<and>
     system_cmd out = Some (event_cmd ''h'' ''door_unlock'' [''&door_mask=4''])"
proof -
  have p: "cmd_parts (EVENT_DOOR_UNLOCK ''lift%'' 4) = Inr [''&door_mask=4'']" by code_simp
  have l: "length (log_line (EVENT_DOOR_UNLOCK ''lift%'' 4)) < 256" by code_simp
  have h: "eventHost sample_cfg = Some ''h''" "eventNames ! event_type (EVENT_DOOR_UNLOCK ''lift%'' 4) = ''door_unlock''"
    by (simp_all add: sample_cfg_def eventNames_def)
  have "length (event_cmd ''h'' ''door_unlock'' [''&door_mask=4'']) < 256" by code_simp
  then show ?thesis
    using sendEvent_command [OF h(1) _ p l refl] unfolding h(2) by simp
qed

text \<open>
  Property C33. With an event host configured, reporting a remote control command reads beyond
  the table of event names, which has no entry for \<open>EVENT_REMOTE_CTRL\<close>.
\<close>

theorem remote_ctrl_event_faults:
  "sendEvent (cfg\<lparr>eventHost := Some host\<rparr>) (EVENT_REMOTE_CTRL d t a x) = Inl Out_of_bounds"
  by (simp add: sendEvent_def cmd_head_def fetch_def eventNames_def)

text \<open>
  Property C34. A refused card of a user whose name has more than 250 characters overruns the
  command buffer, even when no event host is configured: the size of the second \<open>snprintf\<close> is
  negative.
\<close>

theorem long_user_overruns:
  assumes "eventHost cfg = None" and "logHost cfg = None" and "250 < length user"
  shows "sendEvent cfg (EVENT_AUTH_ERR door (Some user) crd) = Inl Out_of_bounds"
  using assms
  by (simp add: sendEvent_def cmd_head_def denied_parts_def put_part_def snprintf_at_def BUF_SIZE_def Let_def)

theorem long_user_overruns_witness:
  "sendEvent \<lparr>eventHost = None, logHost = None, logPort = None\<rparr> (EVENT_AUTH_ERR (Some ''d'') (Some (replicate 251 CHR ''x'')) ''00'') = Inl Out_of_bounds"
  by (rule long_user_overruns) simp_all

subsection \<open>Delivery to the log host\<close>

text \<open>
  \<open>tcpSend\<close>: the addresses \<open>getaddrinfo\<close> finds, each with its kind and the results of \<open>socket\<close>,
  \<open>connect\<close> and \<open>send\<close> on it; \<open>None\<close> when the lookup fails. Then \<open>netInfo\<close> was never assigned,
  and is tested all the same. The result is that of the function and whether \<open>data\<close> was sent.
\<close>

record addr_info =
  ai_stream :: bool
  ai_socket :: int
  ai_connect :: int
  ai_send :: int

fun tcp_addresses :: "addr_info list \<Rightarrow> int \<Rightarrow> int \<times> bool" where
  "tcp_addresses [] ret = (ret, False)"
| "tcp_addresses (a # as) ret =
     (if ai_stream a
      then if ai_socket a < 0 then tcp_addresses as (- 2)
           else if ai_connect a \<noteq> 0 then tcp_addresses as (- 2)
           else if ai_send a < 0 then tcp_addresses as (- 2)
           else (ai_send a, True)
      else tcp_addresses as ret)"

definition tcpSend :: "addr_info list option \<Rightarrow> (int \<times> bool) cres" where
  "tcpSend lookup = (case lookup of None \<Rightarrow> Inl Uninitialised | Some as \<Rightarrow> Inr (tcp_addresses as 0))"

text \<open>The message is sent to the first address that accepts it, and only to that one.\<close>

lemma tcp_addresses_sent:
  "tcp_addresses as ret = (r, sent) \<Longrightarrow>
     (sent \<longleftrightarrow> (\<exists>a\<in>set as. ai_stream a \<and> 0 \<le> ai_socket a \<and> ai_connect a = 0 \<and> 0 \<le> ai_send a)) \<and> (sent \<longrightarrow> 0 \<le> r)"
  by (induction as arbitrary: ret) (auto split: if_splits)

lemma tcp_addresses_none: "\<forall>a\<in>set as. \<not> ai_stream a \<Longrightarrow> tcp_addresses as ret = (ret, False)"
  by (induction as) simp_all

text \<open>When some address is of the right kind, a result that is no error means that the message was sent.\<close>

lemma tcpSend_result:
  "tcpSend (Some as) = Inr (r, sent) \<Longrightarrow> 0 \<le> r \<and> (\<exists>a\<in>set as. ai_stream a) \<Longrightarrow> sent"
proof -
  have "tcp_addresses as ret = (r, False) \<Longrightarrow> \<exists>a\<in>set as. ai_stream a \<Longrightarrow> r = - 2" for ret
  proof (induction as arbitrary: ret)
    case (Cons a as)
    have "tcp_addresses as (- 2) = (r, False) \<Longrightarrow> r = - 2"
      by (cases "\<exists>a\<in>set as. ai_stream a") (use Cons.IH tcp_addresses_none [of as "- 2"] in auto)
    then show ?case using Cons by (auto split: if_splits)
  qed simp
  then show "tcpSend (Some as) = Inr (r, sent) \<Longrightarrow> 0 \<le> r \<and> (\<exists>a\<in>set as. ai_stream a) \<Longrightarrow> sent"
    by (cases sent) (force simp: tcpSend_def)+
qed

end
