(* ===== verification/Event_Delivery.thy ===== *)
theory Event_Delivery
  imports Event_Send Controller
begin

text \<open>
  What the controller reports, and whether it reaches the event host: every event that the main
  loop can produce is one \<open>sendEvent\<close> turns into a command, provided that the texts of the
  configuration and the database are short and free of quotes.
\<close>

subsection \<open>Events with short texts\<close>

definition short_text :: "nat \<Rightarrow> string \<Rightarrow> bool" where
  "short_text n s \<longleftrightarrow> length s \<le> n \<and> CHR 0x27 \<notin> set s"

definition short_opt :: "nat \<Rightarrow> string option \<Rightarrow> bool" where
  "short_opt n s \<longleftrightarrow> (case s of None \<Rightarrow> True | Some s \<Rightarrow> short_text n s)"

fun short_event :: "event \<Rightarrow> bool" where
  "short_event (EVENT_AUTH_OK d m u c) = (d \<noteq> None \<and> short_opt 40 d \<and> short_opt 60 u \<and> short_text 32 c)"
| "short_event (EVENT_AUTH_ERR d u c) = (short_opt 40 d \<and> short_opt 60 u \<and> short_text 32 c)"
| "short_event (EVENT_AUTH_ERR_EXPIRE d u c) = (short_opt 40 d \<and> short_opt 60 u \<and> short_text 32 c)"
| "short_event (EVENT_AUTH_ERR_PIN d u c) = (short_opt 40 d \<and> short_opt 60 u \<and> short_text 32 c)"
| "short_event (EVENT_MANUAL_OPEN d) = short_text 40 d"
| "short_event (EVENT_DOOR_UNLOCK d m) = short_text 40 d"
| "short_event (EVENT_DOOR_LOCK d m) = short_text 40 d"
| "short_event (EVENT_DOOR_IS_OPEN d) = short_text 40 d"
| "short_event (EVENT_DOOR_IS_CLOSE d) = short_text 40 d"
| "short_event (EVENT_DOOR_IS_UNLOCK d) = short_text 40 d"
| "short_event (EVENT_DOOR_IS_LOCK d) = short_text 40 d"
| "short_event (EVENT_DOOR_EMERGENCY_ACTIVE d) = short_text 40 d"
| "short_event (EVENT_DOOR_EMERGENCY_INACTIVE d) = short_text 40 d"
| "short_event (EVENT_DOOR_OPEN_ALARM d m) = short_text 40 d"
| "short_event (EVENT_REMOTE_CTRL d t a x) = False"

text \<open>The rows of the database have short texts too.\<close>

definition short_row :: "auth_row \<Rightarrow> bool" where
  "short_row row \<longleftrightarrow> short_opt 60 (col_userName row) \<and> col_door row \<noteq> None \<and> short_opt 40 (col_door row)"

definition short_db :: "auth_db \<Rightarrow> bool" where
  "short_db db \<longleftrightarrow> (\<forall>sql. \<forall>row\<in>set (step_rows db sql). short_row row)"

subsection \<open>Events of an access request\<close>

lemma card_str_short: "card_str c n = Inr s \<Longrightarrow> n \<le> MAX_CARD_LEN \<Longrightarrow> short_text 32 s"
  using hex_string_no_quote [of True "take n c"]
  by (auto simp: card_str_def short_text_def MAX_CARD_LEN_def split: if_splits)

lemma rows_loop_short:
  "\<forall>row\<in>set rows. short_row row \<Longrightarrow> short_opt 60 u \<Longrightarrow>
     unless_fault (rows_loop mode name pin now rows (m, e, u)) (\<lambda>(m, e, u). short_opt 60 u)"
proof (induction rows arbitrary: m e u)
  case (Cons row rows)
  then have "short_opt 60 (col_userName row)" by (simp add: short_row_def)
  then show ?case
    using Cons.IH Cons.prems by (cases "row_step mode name pin now row") (auto split: prod.splits)
qed simp

lemma auth_err_event_short:
  "short_opt 40 d \<Longrightarrow> short_opt 60 u \<Longrightarrow> short_text 32 c \<Longrightarrow> short_event (auth_err_event e d u c)"
  by (cases e) (simp_all add: auth_err_event_def)

lemma getAccessMask2_short:
  assumes "short_text 40 name" and "short_db db"
  shows "unless_fault (getAccessMask2 pin plen c clen mode name db) (\<lambda>(m, evs). \<forall>e\<in>set evs. short_event e)"
proof -
  have name: "short_opt 40 (Some name)" using assms(1) by (simp add: short_opt_def)
  have final: "unless_fault (cbind (rows_loop mode name p (db_time db) (step_rows db sql) (0, AUTH_ERR, None)) (\<lambda>(m, e, u).
      if m \<noteq> 0 then Inr (m, [EVENT_AUTH_OK (Some name) m u cs]) else Inr (m, [auth_err_event e (Some name) u cs])))
      (\<lambda>(m, evs). \<forall>e\<in>set evs. short_event e)" if "short_text 32 cs" for p sql cs
    using assms(2) name that
    by (intro unless_bindI [OF rows_loop_short]) (auto simp: short_db_def short_opt_def auth_err_event_short)
  have card_text: "unless_fault (if b then card_str c clen else Inr []) (short_text 32)" if "\<not> (b \<and> clen > MAX_CARD_LEN)" for b
    using that card_str_short [of c clen] by (cases "card_str c clen") (auto simp: short_text_def)
  have no_event: "unless_fault (Inr (0, [])) (\<lambda>(m :: u32, evs). \<forall>e\<in>set evs. short_event e)" by simp
  show ?thesis
    unfolding getAccessMask2_def Let_def
    apply (rule unless_bindI [OF unless_fault_True])
    apply (rule unless_if, rule no_event)
    apply (rule unless_bindI [OF card_text], assumption)
    apply (rule unless_if, rule no_event)
    apply (split option.split, intro conjI impI allI, rule no_event)
    apply (intro unless_if no_event final)
    apply assumption
    done
qed

lemma short_opt_simps [simp]: "short_opt n None" "short_opt n (Some s) \<longleftrightarrow> short_text n s"
  by (simp_all add: short_opt_def)

lemma checkKeyAccess2_short:
  assumes "short_db db"
  shows "unless_fault (checkKeyAccess2 c1 n1 c2 n2 db) (\<lambda>(m, evs). \<forall>e\<in>set evs. short_event e)"
proof (cases "n1 > MAX_CARD_LEN \<or> n2 > MAX_CARD_LEN")
  case True
  then show ?thesis by (simp add: checkKeyAccess2_def)
next
  case False
  have c: "unless_fault (card_str c1 n1) (short_text 32)" "unless_fault (card_str c2 n2) (short_text 32)"
    using False card_str_short by (auto simp: unless_fault_def split: sum.split)
  have w: "short_text 32 s \<Longrightarrow> short_text 40 s" for s by (simp add: short_text_def)
  have row: "short_row r" if "step_rows db sql = r # rs" for sql r rs
    using assms that by (metis list.set_intros(1) short_db_def)
  show ?thesis
    unfolding checkKeyAccess2_def Let_def using False
    by (auto intro!: unless_bindI [OF c(1)] unless_bindI [OF c(2)] simp del: unless_fault_simps(3)
        simp: w split: list.split prod.splits dest!: row simp: short_row_def)
qed

subsection \<open>Sending an event with short texts\<close>

text \<open>The texts of numbers have no quotes, and those of masks are short.\<close>

lemma num_string_no_quote: "2 \<le> b \<Longrightarrow> b \<le> 16 \<Longrightarrow> CHR 0x27 \<notin> set (num_string b n)"
  using num_string_digits [of b "CHR 0x27" n] by (auto simp: digit_value_def)

lemma num_string_length: "2 \<le> b \<Longrightarrow> n < b ^ Suc k \<Longrightarrow> length (num_string b n) \<le> Suc k"
proof (induction k arbitrary: n)
  case 0
  then show ?case by (simp add: num_string.simps [of b n])
next
  case (Suc k)
  have "n div b < b ^ Suc k" using Suc.prems by (simp add: less_mult_imp_div_less mult.commute)
  then show ?case using Suc.IH [of "n div b"] Suc.prems by (simp add: num_string.simps [of b n])
qed

lemma dec_string_short: "short_text 11 (dec_string (sint (m :: u32)))"
proof -
  have "\<bar>sint m\<bar> \<le> 2 ^ 31" using sint_ge [of m] sint_lt [of m] by simp
  then have "nat \<bar>sint m\<bar> < 10 ^ Suc 9" by simp
  then have "length (num_string 10 (nat \<bar>sint m\<bar>)) \<le> 10" using num_string_length [of 10 "nat \<bar>sint m\<bar>" 9] by simp
  then show ?thesis using num_string_no_quote [of 10] by (auto simp: short_text_def dec_string_def)
qed

lemma hex_mask_short: "length (hex_mask (m :: u32)) \<le> 10" "length (hex_mask (a :: u8)) \<le> 10"
proof -
  have "unat m < 16 ^ Suc 7" using unsigned_less [of m, where 'a = nat] by simp
  then show "length (hex_mask m) \<le> 10" using num_string_length [of 16 "unat m" 7] by (simp add: hex_mask_def)
  have "unat a < 16 ^ Suc 7" using unsigned_less [of a, where 'a = nat] by simp
  then show "length (hex_mask a) \<le> 10" using num_string_length [of 16 "unat a" 7] by (simp add: hex_mask_def)
qed

definition quotes :: "string \<Rightarrow> nat" where
  "quotes s = length (filter (\<lambda>c. c = CHR 0x27) s)"

lemma quotes_append: "quotes (s @ t) = quotes s + quotes t" "quotes (c # s) = (if c = CHR 0x27 then Suc (quotes s) else quotes s)" "quotes [] = 0"
  by (simp_all add: quotes_def)

lemma short_quotes: "short_text n s \<Longrightarrow> quotes s = 0"
  by (auto simp: short_text_def quotes_def filter_empty_conv)

text \<open>The parts of the command and the line of the log.\<close>

lemma mask_part_short:
  assumes "short_text 40 d"
  shows "\<exists>ps. mask_part (Some d) m = Inr ps \<and> length (concat ps) \<le> 22 \<and> quotes (concat ps) = 0"
  using dec_string_short [of m] short_quotes [OF dec_string_short [of m]]
  by (auto simp: mask_part_def quotes_append short_text_def)

lemma str_arg_short: "short_opt n u \<Longrightarrow> 6 \<le> n \<Longrightarrow> short_text n (str_arg u)"
  by (auto simp: short_opt_def str_arg_def short_text_def split: option.splits)

lemma denied_parts_short:
  assumes "short_opt 60 u" "short_text 32 c"
  shows "length (concat (denied_parts u c)) \<le> 126 \<and> quotes (concat (denied_parts u c)) = 0"
  using assms short_quotes [OF assms(2)] by (auto simp: denied_parts_def quotes_append short_opt_def short_text_def short_quotes split: option.splits)

lemma cmd_parts_short:
  assumes "short_event ev"
  shows "\<exists>ps. cmd_parts ev = Inr ps \<and> length (concat ps) \<le> 126 \<and> quotes (concat ps) = 0"
proof (cases ev)
  case (EVENT_AUTH_OK d m u c)
  then obtain x where x: "d = Some x" "short_text 40 x" "short_opt 60 u" "short_text 32 c"
    using assms by (auto simp: short_opt_def)
  obtain ps where "mask_part d m = Inr ps" "length (concat ps) \<le> 22" "quotes (concat ps) = 0"
    using mask_part_short [OF x(2), of m] x(1) by auto
  moreover have "short_text 60 (str_arg u)" using x(3) by (rule str_arg_short) simp
  ultimately show ?thesis
    using x(4) short_quotes [of 60 "str_arg u"] short_quotes [OF x(4)] by (simp add: EVENT_AUTH_OK quotes_append short_text_def)
next
  case (EVENT_DOOR_UNLOCK d m)
  then show ?thesis using assms mask_part_short [of d m] by auto
next
  case (EVENT_DOOR_LOCK d m)
  then show ?thesis using assms mask_part_short [of d m] by auto
qed (use assms denied_parts_short in \<open>auto simp: quotes_append le_trans\<close>)

lemma log_line_short:
  assumes "short_event ev"
  shows "length (log_line ev) < 256"
proof -
  have a: "length (str_arg d) \<le> 40" if "short_opt 40 d" for d using str_arg_short [OF that] by (simp add: short_text_def)
  have b: "length (str_arg d) \<le> 60" if "short_opt 60 d" for d using str_arg_short [OF that] by (simp add: short_text_def)
  have den: "length (denied_line d u c suf) < 256" if "short_opt 40 d" "short_opt 60 u" "short_text 32 c" "length suf \<le> 12" for d u c suf
    using a [OF that(1)] that by (auto simp: denied_line_def short_opt_def short_text_def Event_Send.newline_def split: option.splits)
  show ?thesis
  proof (cases ev)
    case (EVENT_AUTH_OK d m u c)
    then show ?thesis
      using assms a [of d] b [of u] hex_mask_short(1) [of m] by (simp add: short_text_def Event_Send.newline_def)
  next
    case (EVENT_DOOR_UNLOCK d m)
    then show ?thesis using assms hex_mask_short(1) [of m] by (simp add: short_text_def Event_Send.newline_def)
  next
    case (EVENT_DOOR_LOCK d m)
    then show ?thesis using assms hex_mask_short(1) [of m] by (simp add: short_text_def Event_Send.newline_def)
  next
    case (EVENT_DOOR_OPEN_ALARM d m)
    then show ?thesis using assms hex_mask_short(2) [of m] by (simp add: short_text_def Event_Send.newline_def)
  qed (use assms den in \<open>simp_all add: short_text_def Event_Send.newline_def\<close>)
qed

lemma short_event_sent:
  assumes "short_event ev" and "eventHost cfg = Some host" and "short_text 60 host"
  shows "\<exists>out cmd. sendEvent cfg ev = Inr out \<and> system_cmd out = Some cmd \<and> quotes cmd = 2"
proof -
  let ?name = "eventNames ! event_type ev"
  obtain ps where ps: "cmd_parts ev = Inr ps" "length (concat ps) \<le> 126" "quotes (concat ps) = 0"
    using cmd_parts_short [OF assms(1)] by blast
  have n: "event_type ev < 14" using assms(1) by (cases ev) simp_all
  have t: "length ?name \<le> 23 \<and> quotes ?name = 0" by (cases ev) (use assms(1) in \<open>simp_all add: eventNames_def quotes_def\<close>)
  let ?cmd = "event_cmd host ?name ps"
  have "length ?cmd < 256" using t ps(2) assms(3) by (simp add: event_cmd_def short_text_def)
  moreover have "quotes ?cmd = 2" using t ps(3) short_quotes [OF assms(3)] by (simp add: event_cmd_def quotes_append)
  ultimately show ?thesis using sendEvent_cmd [OF assms(2) n ps(1) log_line_short [OF assms(1)] refl] by auto
qed

subsection \<open>Events of the controller\<close>

text \<open>The doors keep short names, and what was reported so far is short.\<close>

definition reports_short :: "nat \<Rightarrow> 'r sys \<Rightarrow> bool" where
  "reports_short n s \<longleftrightarrow> length (doors s) = n \<and> (\<forall>i<n. short_text 40 (doorName (door_at s i))) \<and>
     (\<forall>e. Event e \<in> set (trace s) \<longrightarrow> short_event e)"

lemma reports_name: "reports_short n s \<Longrightarrow> i < n \<Longrightarrow> short_text 40 (doorName (door_at s i))"
  by (simp add: reports_short_def)

lemma doorName_upd_door: "(\<And>d. doorName (f d) = doorName d) \<Longrightarrow> doorName (door_at (upd_door i f s) k) = doorName (door_at s k)"
  by (cases "i < length (doors s)") (auto simp: upd_door_def door_at_def nth_list_update list_update_beyond)

lemma reports_frames [simp]:
  "reports_short n (upd_reader h r s) \<longleftrightarrow> reports_short n s"
  "reports_short n (upd_dr i sd g s) \<longleftrightarrow> reports_short n s"
  "reports_short n (emit outs s) \<longleftrightarrow> reports_short n s \<and> (\<forall>e. Event e \<in> set outs \<longrightarrow> short_event e)"
proof -
  have "doorName (door_at (upd_dr i sd g s) k) = doorName (door_at s k)" for k
    unfolding upd_dr_def by (rule doorName_upd_door) simp
  then show "reports_short n (upd_dr i sd g s) \<longleftrightarrow> reports_short n s"
    by (simp only: reports_short_def) simp
qed (auto simp: reports_short_def)

lemma reports_upd_door:
  assumes "reports_short n s" and "\<And>d. doorName (f d) = doorName d"
  shows "reports_short n (upd_door i f s)"
proof -
  have "doorName (door_at (upd_door i f s) k) = doorName (door_at s k)" for k
    using assms(2) by (rule doorName_upd_door)
  then show ?thesis using assms(1) by (simp only: reports_short_def) simp
qed

abbreviation keeps_short :: "nat \<Rightarrow> 'r sys cres \<Rightarrow> bool" where
  "keeps_short n r \<equiv> unless_fault r (reports_short n)"

named_theorems short_rules \<open>operations that keep the reports short\<close>

lemma call_signal_short [short_rules]: "reports_short n s \<Longrightarrow> keeps_short n (call_signal rsig sg h s)"
  unfolding call_signal_def by (rule unless_bindI [OF unless_fault_True]) simp

lemma door_signal_short [short_rules]: "reports_short n s \<Longrightarrow> keeps_short n (door_signal rsig i sg s)"
  unfolding door_signal_def signal_if_def
  by (auto intro!: unless_bindI call_signal_short simp del: unless_fault_simps(3) split: option.split)

lemma signalDoorStatus_short [short_rules]: "reports_short n s \<Longrightarrow> keeps_short n (signalDoorStatus rsig i s)"
  by (simp add: signalDoorStatus_def door_signal_short)

lemma airLockOnPartner_short [short_rules]: "reports_short n s \<Longrightarrow> keeps_short n (airLockOnPartner rsig i m s)"
  by (auto simp: airLockOnPartner_def Let_def intro!: signalDoorStatus_short reports_upd_door split: option.split)

lemma gpio_no_event: "Event e \<notin> set (map (\<lambda>(l, v). Gpio l v) xs)"
  by auto

lemma unlock_door_short [short_rules]:
  assumes "reports_short n s" and "i < n"
  shows "unless_fault (unlock_door rsig i m s) (\<lambda>(_, t). reports_short n t)"
proof -
  have sig: "unless_fault (door_signal rsig i sg (upd_door i (\<lambda>d. d\<lparr>door_lock_timer := DOOR_OPEN_TIME\<rparr>)
      (emit [Event (EVENT_DOOR_UNLOCK (doorName (door_at (emit (map (\<lambda>(l, v). Gpio l v) xs) u) i)) m)]
        (emit (map (\<lambda>(l, v). Gpio l v) xs) u))))
      (reports_short n)" if "reports_short n u" for sg u m xs
    using that reports_name [OF that assms(2)] by (intro door_signal_short reports_upd_door) auto
  show ?thesis
    unfolding unlock_door_def Let_def
    by (rule unless_bindI [OF unless_fault_True], rule unless_if,
        rule unless_bindI [OF airLockOnPartner_short [OF assms(1)]], rule unless_bindI [OF sig], simp_all add: assms(1))
qed

lemma lock_door_short [short_rules]:
  assumes "reports_short n s" and "i < n"
  shows "unless_fault (lock_door rsig i m s) (\<lambda>(_, t). reports_short n t)"
proof -
  have sig: "unless_fault (door_signal rsig i sg (emit [Event (EVENT_DOOR_LOCK (doorName (door_at u i)) m)] u)) (reports_short n)"
    if "reports_short n u" for sg u m
    using that reports_name [OF that assms(2)] by (intro door_signal_short) auto
  have gpio: "reports_short n (emit (map (\<lambda>(l, v). Gpio l v) xs) s)" for xs
    using assms(1) gpio_no_event by simp
  show ?thesis
    unfolding lock_door_def Let_def
    by (rule unless_bindI [OF unless_fault_True], rule unless_if,
        rule unless_bindI [OF airLockOnPartner_short [OF gpio]], rule unless_bindI [OF sig], simp_all add: assms(1))
qed

lemma snd_short: "unless_fault r (\<lambda>(_, t). reports_short n t) \<Longrightarrow> keeps_short n (cbind r (\<lambda>(_, s). Inr s))"
  by (auto intro!: unless_bindI simp del: unless_fault_simps(3))

lemma keep_if: "(c \<Longrightarrow> keeps_short n r) \<Longrightarrow> reports_short n s \<Longrightarrow> keeps_short n (if c then r else Inr s)"
  by simp

lemma process_diff_short:
  assumes "reports_short n s" and "i < n"
  shows "keeps_short n (process_diff rsig i inp diff s)"
proof -
  have ev: "reports_short n (door_event ev i t)" if "reports_short n t" "\<And>d. short_text 40 d \<Longrightarrow> short_event (ev d)" for ev t
    using that reports_name [OF that(1) assms(2)] by (simp add: door_event_def)
  have manual: "keeps_short n (if c then cbind (unlock_door rsig i 1 (door_event EVENT_MANUAL_OPEN i t)) (\<lambda>(_, s). Inr s) else Inr t)"
    if "reports_short n t" for c t
    using that assms(2) by (intro keep_if snd_short unlock_door_short ev) simp_all
  have emergency: "keeps_short n (if c then if c' then airLockOnPartner rsig i m (door_event EVENT_DOOR_EMERGENCY_ACTIVE i t)
        else Inr (door_event EVENT_DOOR_EMERGENCY_INACTIVE i t) else Inr t)" if "reports_short n t" for c c' m t
    using that ev [OF that] by (simp add: airLockOnPartner_short)
  have closing: "keeps_short n (if c then if c' then airLockOnPartner rsig i m (door_event EVENT_DOOR_IS_CLOSE i t)
        else airLockOnPartner rsig i m' (door_event EVENT_DOOR_IS_OPEN i t) else Inr t)" if "reports_short n t" for c c' m m' t
    using that ev [OF that] by (simp add: airLockOnPartner_short)
  have lock: "reports_short n (upd_door i (\<lambda>d. d\<lparr>lastInput := inp\<rparr>)
      (if c then if c' then door_event EVENT_DOOR_IS_LOCK i t else door_event EVENT_DOOR_IS_UNLOCK i t else t))"
    if "reports_short n t" for c c' t
    using that ev [OF that] by (intro reports_upd_door) simp_all
  show ?thesis
    unfolding process_diff_def Let_def
    by (intro unless_bindI [OF manual] unless_bindI [OF emergency] unless_bindI [OF closing])
      (simp_all add: assms(1) lock del: reports_frames)
qed

lemma check_door_short:
  assumes "reports_short n s" and "i < n"
  shows "keeps_short n (check_door rsig i inp s)"
proof -
  have alarm: "reports_short n (upd_door i (\<lambda>d. d\<lparr>alarm_timers := a\<rparr>)
      (if b then emit [Event (EVENT_DOOR_OPEN_ALARM (doorName (door_at t i)) al)] t else t))" if "reports_short n t" for t a al b
    using that reports_name [OF that assms(2)] by (intro reports_upd_door) auto
  show ?thesis
    unfolding check_door_def Let_def
    by (rule unless_bindI [OF keep_if [OF process_diff_short]], rule assms, rule assms, rule assms, simp add: alarm split: prod.split)
qed

lemma check_inputs_short: "reports_short n s \<Longrightarrow> keeps_short n (check_inputs rsig rd s)"
proof -
  assume s: "reports_short n s"
  have "keeps_short n (cfold (\<lambda>i s. cbind (fetch_init v i) (\<lambda>inp. check_door rsig i inp s)) [0..<length (doors s)] s)" for v
    using s by (intro unless_cfold unless_bindI [OF unless_fault_True] check_door_short) (auto simp: reports_short_def)
  then show ?thesis
    unfolding check_inputs_def Let_def by (intro unless_if unless_bindI [OF unless_fault_True]) auto
qed

lemma auth_switch_short:
  assumes "short_text 40 name" and "short_db db"
  shows "unless_fault (auth_switch dr name db) (\<lambda>(dr, m, evs, ask). \<forall>e\<in>set evs. short_event e)"
proof -
  have m: "unless_fault (getAccessMask dr mode name db) (\<lambda>(m, evs). \<forall>e\<in>set evs. short_event e)" for mode
    unfolding getAccessMask_def using assms by (rule getAccessMask2_short)
  have k: "unless_fault (checkKeyAccess dr db) (\<lambda>(m, evs). \<forall>e\<in>set evs. short_event e)"
    unfolding checkKeyAccess_def using assms(2) by (rule checkKeyAccess2_short)
  show ?thesis
    unfolding auth_switch_def start_two_factor_def
    by (auto intro!: unless_bindI [OF m] unless_bindI [OF k] unless_if simp del: unless_fault_simps(3) split: if_splits)
qed

lemma process_user_info_short:
  assumes "reports_short n s" and "i < n" and "short_db db"
  shows "keeps_short n (process_user_info rsig db data ty md h i s)"
proof (cases "reader_side h (door_at s i)")
  case None
  then show ?thesis using assms(1) by (simp add: process_user_info_def invalidData_def call_signal_short)
next
  case (Some sd)
  have cs: "keeps_short n (call_signal rsig sg h t)" if "reports_short n t" for sg t using that by (rule call_signal_short)
  have auth: "keeps_short n (if m \<noteq> 0 then cbind (unlock_door rsig i m t) (\<lambda>(_, s). Inr (upd_dr i sd resetDoorAuth s))
      else if tf_timer dr = 0 then cbind (authError rsig h t) (\<lambda>s. Inr (upd_dr i sd resetDoorAuth s)) else Inr t)"
    if "reports_short n t" for m t dr
    unfolding authError_def
    by (rule unless_if, rule unless_bindI [OF unlock_door_short [OF that assms(2)]], force, rule unless_if,
        rule unless_bindI [OF cs [OF that]]) (simp_all add: that)
  have decide: "keeps_short n (cbind (auth_switch dr (doorName (door_at t i)) db) (\<lambda>(dr, auth_mask, evs, ask).
      let s = emit (map Event evs) t
      in cbind (if ask then call_signal rsig SIGNAL_PIN h s else Inr s) (\<lambda>s.
         let s = upd_dr i sd (\<lambda>_. dr) s
         in if auth_mask \<noteq> 0 then cbind (unlock_door rsig i auth_mask s) (\<lambda>(_, s). Inr (upd_dr i sd resetDoorAuth s))
            else if tf_timer dr = 0 then cbind (authError rsig h s) (\<lambda>s. Inr (upd_dr i sd resetDoorAuth s)) else Inr s)))"
    if t: "reports_short n t" for t dr
  proof (rule unless_bindI [OF auth_switch_short [OF reports_name [OF t assms(2)] assms(3)]], clarify)
    fix dr :: door_reader and m evs ask
    assume "\<forall>e\<in>set evs. short_event e"
    then have "reports_short n (emit (map Event evs) t)" using t by auto
    then show "keeps_short n (let s = emit (map Event evs) t
      in cbind (if ask then call_signal rsig SIGNAL_PIN h s else Inr s) (\<lambda>s.
         let s = upd_dr i sd (\<lambda>_. dr) s
         in if m \<noteq> 0 then cbind (unlock_door rsig i m s) (\<lambda>(_, s). Inr (upd_dr i sd resetDoorAuth s))
            else if tf_timer dr = 0 then cbind (authError rsig h s) (\<lambda>s. Inr (upd_dr i sd resetDoorAuth s)) else Inr s))"
      unfolding Let_def by (intro unless_bindI [OF keep_if [OF cs]] auth) simp_all
  qed
  show ?thesis
    unfolding process_user_info_def Some option.case Let_def [of "upd_dr i sd (\<lambda>_. _) s"]
    by (rule unless_bindI [OF unless_fault_True], clarify)
      (use assms(1) decide cs in \<open>auto simp: invalidData_def invalidUsage_def Let_def simp del: unless_fault_simps(3) split: option.split data_error.split\<close>)
qed

lemma two_factor_timer_short:
  assumes "reports_short n s"
  shows "keeps_short n (two_factor_timer rsig rclear i sd s)"
  using assms by (auto simp: two_factor_timer_def invalidUsage_def Let_def intro!: call_signal_short split: option.split)

lemma lock_timer_short:
  assumes "reports_short n s" and "i < n"
  shows "keeps_short n (lock_timer rsig i s)"
proof -
  have "reports_short n (upd_door i (\<lambda>d. d\<lparr>door_lock_timer := door_lock_timer d - 1\<rparr>) s)"
    using assms(1) by (rule reports_upd_door) simp
  then show ?thesis unfolding lock_timer_def Let_def using assms(1) by (intro keep_if unless_if snd_short lock_door_short assms(2)) auto
qed

context reader_driver
begin

text \<open>What every part of a cycle keeps.\<close>

definition reporting :: "auth_db \<Rightarrow> nat \<Rightarrow> 'a sys \<Rightarrow> bool" where
  "reporting db n s \<longleftrightarrow> (wf s \<and> creds_sys s \<and> db_sys_ok db s) \<and> reports_short n s"

lemma run_reporting:
  assumes "reporting db n s" and "returns r (\<lambda>t. (run s t \<and> creds_sys t) \<and> reports_short n t)"
  shows "returns r (reporting db n)"
  using assms(2)
proof (rule returns_mono, elim conjE)
  fix t assume t: "run s t" "creds_sys t" "reports_short n t"
  then show "reporting db n t"
    using assms(1) quiet_run_wf [OF t(1)] db_sys_ok_static [OF quiet_run_static [OF t(1)]] by (simp add: reporting_def)
qed

lemma door_cycle_reporting:
  assumes "reporting db n s" and "i < n" and "short_db db"
  shows "returns (door_cycle rsig rclear rget db i s) (reporting db n)"
proof -
  have l: "i < length (doors t)" if "reporting db n t" for t
    using that assms(2) by (simp add: reporting_def reports_short_def)
  have two: "returns (two_factor_timer rsig rclear i sd t) (reporting db n)" if "reporting db n t" for sd t
    using that l [OF that] by (intro run_reporting [OF that] returns_unless two_factor_timer_ok two_factor_timer_short)
      (simp_all add: reporting_def)
  have poll: "returns (poll_reader rsig rget db i sd t) (reporting db n)" if "reporting db n t" for sd t
    using that l [OF that] assms(2,3) by (intro run_reporting [OF that] poll_reader_keeps process_user_info_short)
      (simp_all add: reporting_def)
  have lock: "returns (lock_timer rsig i s) (reporting db n)"
  proof -
    have "returns (lock_timer rsig i s) (\<lambda>t. (\<exists>u. timer_step i s u \<and> quietly u t) \<and> reports_short n t)"
      using assms(1) l [OF assms(1)] by (intro returns_unless lock_timer_ok lock_timer_short assms(2)) (simp_all add: reporting_def)
    then show ?thesis
    proof (rule returns_mono, elim conjE exE)
      fix t u assume t: "timer_step i s u" "quietly u t" "reports_short n t"
      then have "creds_sys t" using assms(1) creds_quiet [OF t(2)] timer_step_creds [OF t(1)] by (simp add: reporting_def)
      moreover have "static_sys t = static_sys s" using timer_step_static [OF t(1)] quiet_run_static [OF t(2)] by simp
      ultimately show "reporting db n t"
        using assms(1) t quiet_run_wf [OF t(2)] db_sys_ok_static [of t s db] by (simp add: reporting_def)
    qed
  qed
  show ?thesis
    unfolding door_cycle_def
    by (intro returns_bind [OF lock] returns_bind [OF two] returns_bind [OF poll] poll)
qed

lemma mainLoop_reporting:
  assumes "reporting db n s" and "short_db db"
  shows "returns (mainLoop rsig rclear rget db rd s) (reporting db n)"
proof -
  have n: "length (doors s) = n" using assms(1) by (simp add: reporting_def reports_short_def)
  have "returns (cfold (door_cycle rsig rclear rget db) [0..<n] s) (reporting db n)"
    using assms by (intro returns_cfold door_cycle_reporting) simp_all
  moreover have "returns (check_inputs rsig rd t) (reporting db n)" if "reporting db n t" for t
    using that quiet_run_mono [of link_ok owner t _ True]
    by (intro run_reporting [OF that] returns_unless [OF returns_mono [OF check_inputs_ok]] check_inputs_short)
      (auto simp: reporting_def intro: creds_quiet)
  ultimately show ?thesis unfolding mainLoop_def n by (rule returns_bind)
qed

end

lemma cycles_reporting:
  assumes "good s" and "reports_short (length (doors s)) s" and "\<forall>(db, rd)\<in>set ins. db_sys_ok db s \<and> short_db db"
  shows "returns (controller_cycles cs ins s) (reports_short (length (doors s)))"
proof -
  let ?P = "\<lambda>t. good t \<and> static_sys t = static_sys s \<and> reports_short (length (doors s)) t"
  have "returns (controller_cycles cs ins s) ?P"
    unfolding controller_cycles_def
  proof (rule returns_cfold)
    fix x t assume x: "x \<in> set ins" and t: "?P t"
    obtain db rd where [simp]: "x = (db, rd)" by fastforce
    have db: "db_sys_ok db t" "short_db db" using x t assms(3) db_sys_ok_static [of t s db] by auto
    have "returns (controller_cycle cs db rd t) (\<lambda>u. (good u \<and> static_sys u = static_sys t \<and> main_run [0..<length (doors t)] t u) \<and>
        reports_short (length (doors s)) u)"
      using t db idesco.mainLoop_reporting [of db "length (doors s)" t cs rd]
      by (intro returns_unless controller_cycle_ok)
        (auto simp: idesco.reporting_def controller_cycle_def unless_fault_def returns_def split: sum.splits)
    then show "returns ((case x of (db, rd) \<Rightarrow> controller_cycle cs db rd) t) ?P"
      using t by (auto elim!: returns_mono)
  qed (use assms in simp)
  then show ?thesis by (rule returns_mono) simp
qed

subsection \<open>Property\<close>

text \<open>
  Property C9. Everything the controller reports reaches the event host: when the names of doors,
  users and the host are short and free of quotes, then each event that any number of cycles of
  the main loop produces is sent by \<open>sendEvent\<close> without undefined behaviour as one complete
  command, whose only quotes are the two around the URL, so that no text of an event is read as
  a command by the shell.
\<close>

theorem events_delivered:
  assumes "good s" and "trace s = []" and "\<forall>d\<in>set (doors s). short_text 40 (doorName d)"
    and "\<forall>(db, rd)\<in>set ins. db_sys_ok db s \<and> short_db db"
    and "eventHost cfg = Some host" and "short_text 60 host"
  shows "\<exists>t. controller_cycles cs ins s = Inr t \<and>
    (\<forall>ev. Event ev \<in> set (trace t) \<longrightarrow> (\<exists>out cmd. sendEvent cfg ev = Inr out \<and> system_cmd out = Some cmd \<and> quotes cmd = 2))"
proof -
  have "reports_short (length (doors s)) s" using assms(2,3) by (simp add: reports_short_def door_at_def)
  then obtain t where t: "controller_cycles cs ins s = Inr t" "reports_short (length (doors s)) t"
    using cycles_reporting [OF assms(1) _ assms(4), of cs] by (auto simp: returns_iff)
  then show ?thesis using short_event_sent [OF _ assms(5,6)] by (auto simp: reports_short_def)
qed

lemma sample_db_short: "short_db (sample_db now)"
  by (auto simp: short_db_def sample_rows sample_row_def short_row_def short_text_def)

theorem events_delivered_witness:
  "\<exists>t. controller_cycles True [(sample_db 7, None), (sample_db 7, Some [1, 0, 1, 1, 1, 0, 1, 1])] (sample_sys 0x0e) = Inr t \<and>
    (\<forall>ev. Event ev \<in> set (trace t) \<longrightarrow> (\<exists>out cmd. sendEvent sample_cfg ev = Inr out \<and> system_cmd out = Some cmd \<and> quotes cmd = 2))"
proof (rule events_delivered)
  show "\<forall>d\<in>set (doors (sample_sys 0x0e)). short_text 40 (doorName d)"
    by (simp add: sample_sys_def sample_door_def short_text_def)
  show "\<forall>(db, rd)\<in>set [(sample_db 7, None), (sample_db 7, Some [1, 0, 1, 1, 1, 0, 1, 1])]. db_sys_ok db (sample_sys 0x0e) \<and> short_db db"
    using sample_db_ok sample_db_short by simp
  show "eventHost sample_cfg = Some ''h''" by (simp add: sample_cfg_def)
qed (use sample_good [of "0x0e"] in \<open>simp_all add: sample_doors short_text_def\<close>)

end
