(* ===== verification/Reader_To_Lock.thy ===== *)
theory Reader_To_Lock
  imports Controller
begin

text \<open>
  From the serial line to the lock: the packet layer, the OSDP driver and the door controller
  together. A poll of the main loop (\<open>poll_reader\<close>) whose answer is the frame of a card or of
  keys unlocks the door exactly when the database grants the access.
\<close>

subsection \<open>The frame of a row of keys\<close>

text \<open>
  The payload of a keypad answer: the number of the reader, the number of keys, the keys.
\<close>

lemma osdp_fill_process_keys:
  assumes "length (pkt_data p) = 64" and "length (rsp_payload r) = 64" and "length ks \<le> 54"
    and "fill_packet p a osdp_KPD (n # of_nat (length ks) # ks) = Inr q"
  shows "process_packet q r = Inr (True, q,
     r\<lparr>rsp_response := osdp_KPD, rsp_payloadlen := of_nat (length ks),
       rsp_payload := ks @ drop (length ks) (rsp_payload r)\<rparr>)"
proof -
  let ?pl = "n # of_nat (length ks) # ks" and ?d = "pkt_data q"
  have l: "length ?pl \<le> 56" using assms(3) by simp
  have q: "q = p\<lparr>pkt_len := of_nat (length ?pl + 8),
                  pkt_data := osdp_frame a osdp_KPD ?pl @ drop (length ?pl + 8) (pkt_data p)\<rparr>"
    using assms(1,3,4) by (simp add: fill_packet_eq)
  have lq: "length ?d = 64" using assms(1,3) by (simp add: q)
  have f: "frame_len ?d = length ?pl + 8" "?d ! 5 = osdp_KPD" "stored_crc ?d = crc_ref (take (6 + length ?pl) ?d)"
    "take (length ?pl) (drop 6 ?d) = ?pl"
    using filled_frame [OF l, of a osdp_KPD "drop (length ?pl + 8) (pkt_data p)"] unfolding q by simp_all
  have "drop 6 ?d = ?pl @ drop (length ?pl) (drop 6 ?d)"
    using f(4) by (metis append_take_drop_id)
  then have d: "drop 6 ?d ! 1 = of_nat (length ks)" "drop 2 (drop 6 ?d) = ks @ drop (length ?pl) (drop 6 ?d)"
    by (metis One_nat_def append_Cons nth_Cons_0 nth_Cons_Suc, metis append_Cons drop0 drop_Suc_Cons numeral_2_eq_2)
  have k: "?d ! 7 = of_nat (length ks)" "take (length ks) (drop 8 ?d) = ks"
    using d lq by (simp_all add: nth_drop)
  have u: "unat (of_nat (length ks) :: u8) = length ks"
    using assms(3) by (intro unat_of_nat_small(3)) simp
  have m: "memcpy (rsp_payload r) 0 ?d 8 (length ks) = Inr (ks @ drop (length ks) (rsp_payload r))"
    using assms(2,3) lq k(2) by (simp add: memcpy_def)
  show ?thesis
    using f(1-3) k(1) u m assms(3) by (subst process_packet_eq [OF lq]) (simp add: Let_def, simp add: q)
qed

subsection \<open>Polls answered by a frame\<close>

lemma recv_frame:
  assumes "length (pkt_data p) = 64" and "length pl \<le> 56"
  obtains q where "fill_packet p a c pl = Inr q" "recv_packet p (Some (osdp_frame a c pl)) = (True, q)"
proof -
  have "osdp_frame a c pl ! 0 = 0x53" "osdp_frame a c pl \<noteq> []" by (simp_all add: osdp_frame_def Let_def)
  then have "recv_packet p (Some (osdp_frame a c pl)) =
      (True, p\<lparr>pkt_len := of_nat (length pl + 8), pkt_data := osdp_frame a c pl @ drop (length pl + 8) (pkt_data p)\<rparr>)"
    using assms(2) by (simp add: recv_packet_def PACKETLEN_def nth_append Let_def)
  then show ?thesis using assms by (intro that) (simp_all add: fill_packet_eq)
qed

lemma safe_frame:
  assumes "length pl \<le> 56" and "c = osdp_KPD \<Longrightarrow> 2 \<le> length pl \<and> unat (pl ! 1) \<le> 56"
  shows "safe_read (Some (osdp_frame a c pl))"
proof -
  let ?f = "osdp_frame a c pl"
  have l: "length ?f = length pl + 8" by simp
  have f: "frame_len ?f = length pl + 8" "?f ! 5 = c" "take (length pl) (drop 6 ?f) = pl"
    using filled_frame [OF assms(1), of a c "[]"] by simp_all
  have "?f ! 7 = pl ! 1" if "2 \<le> length pl"
  proof -
    have "pl ! 1 = take (length pl) (drop 6 ?f) ! 1" by (simp only: f(3))
    then show ?thesis using that by simp
  qed
  then show ?thesis using assms f(1,2) l by (auto simp: safe_read_def safe_bytes_def PACKETLEN_def)
qed

lemma card_frame_poll:
  assumes "idesco_ok (readers s h)" and "incoming (readers s h) = Some (osdp_frame a osdp_RAW (hdr @ crd)) # rest"
    and "length hdr = 4" and "0 < length crd" and "length crd \<le> 52"
  obtains r where "keeps (readers s h) r" "incoming r = rest" "get_reader_data cs cb h tmo s =
    cbind (cb crd DATA_IS_CARD DATA_OK h (rd_user_data (readers s h)) (upd_reader h r s))
      (\<lambda>t. Inr (upd_own h (\<lambda>r. r\<lparr>pin_buf_pos := 0\<rparr>) t))"
proof -
  define f where "f = frames (readers s h) (calls (readers s h))"
  have f: "length (pkt_data (fr_answer f)) = 64" "length (rsp_payload (fr_res f)) = 64"
    using assms(1) by (simp_all add: f_def idesco_ok_def frame_ok_def)
  let ?pl = "hdr @ crd"
  let ?res = "(fr_res f)\<lparr>rsp_response := osdp_RAW, rsp_payloadlen := of_nat (length ?pl),
                rsp_payload := ?pl @ drop (length ?pl) (rsp_payload (fr_res f))\<rparr>"
  have l: "length ?pl \<le> 56" using assms(3,5) by simp
  obtain ans where ans: "fill_packet (fr_answer f) a osdp_RAW ?pl = Inr ans"
    "recv_packet (fr_answer f) (Some (osdp_frame a osdp_RAW ?pl)) = (True, ans)"
    by (rule recv_frame [OF f(1) l])
  have "process_packet ans (fr_res f) = Inr (True, ans, ?res)"
    by (rule osdp_fill_process [OF f l ans(1)]) simp
  then obtain r where r: "keeps (readers s h) r" "incoming r = rest" "get_reader_data cs cb h tmo s = handle_answer cs cb h tmo ?res (upd_reader h r s)"
    by (rule answered_poll [OF assms(1,2) f_def ans(2)])
  have len: "unat (of_nat (length ?pl) :: u8) = length ?pl"
    using l by (intro unat_of_nat_small(3)) simp
  have "handle_answer cs cb h tmo ?res (upd_reader h r s) =
    cbind (cb (drop 4 (take (unat (rsp_payloadlen ?res)) (rsp_payload ?res))) DATA_IS_CARD DATA_OK h
        (rd_user_data (readers (upd_reader h r s) h)) (upd_reader h r s))
      (\<lambda>t. Inr (upd_own h (\<lambda>r. r\<lparr>pin_buf_pos := 0\<rparr>) t))"
    using assms(3-5) f(2) len by (intro handle_card) simp_all
  then show ?thesis using r len assms(3) by (intro that [of r]) simp_all
qed

lemma upd_reader_twice: "upd_reader h r (upd_reader h r' s) = upd_reader h r s"
  by (simp add: upd_reader_def)

lemma keys_frame_poll:
  assumes "idesco_ok (readers s h)"
    and "incoming (readers s h) = Some (osdp_frame a osdp_KPD (n # of_nat (Suc (length ks)) # ks @ [0x0d])) # rest"
    and "length ks \<le> 28" "0x7f \<notin> set ks" "0x0d \<notin> set ks" and "pin_buf_pos (readers s h) = 0"
  obtains r where "keeps (readers s h) r" "get_reader_data cs cb h tmo s =
    cbind (cb ks DATA_IS_PIN DATA_OK h (rd_user_data (readers s h)) (upd_reader h r s))
      (\<lambda>t. Inr (upd_own h (\<lambda>r. r\<lparr>pin_buf_pos := 0, code_timeout := tmo\<rparr>) t))"
proof -
  define f where "f = frames (readers s h) (calls (readers s h))"
  have f: "length (pkt_data (fr_answer f)) = 64" "length (rsp_payload (fr_res f)) = 64"
    using assms(1) by (simp_all add: f_def idesco_ok_def frame_ok_def)
  let ?ks = "ks @ [0x0d]"
  let ?pl = "n # of_nat (length ?ks) # ?ks"
  let ?res = "(fr_res f)\<lparr>rsp_response := osdp_KPD, rsp_payloadlen := of_nat (length ?ks),
                rsp_payload := ?ks @ drop (length ?ks) (rsp_payload (fr_res f))\<rparr>"
  have l: "length ?pl \<le> 56" "length ?ks \<le> 54" using assms(3) by simp_all
  have i: "incoming (readers s h) = Some (osdp_frame a osdp_KPD ?pl) # rest" using assms(2) by simp
  obtain ans where ans: "fill_packet (fr_answer f) a osdp_KPD ?pl = Inr ans"
    "recv_packet (fr_answer f) (Some (osdp_frame a osdp_KPD ?pl)) = (True, ans)"
    by (rule recv_frame [OF f(1) l(1)])
  have "process_packet ans (fr_res f) = Inr (True, ans, ?res)"
    by (rule osdp_fill_process_keys [OF f l(2) ans(1)])
  then obtain r where r: "keeps (readers s h) r" "pin_buf_pos r = 0"
    "get_reader_data cs cb h tmo s = handle_answer cs cb h tmo ?res (upd_reader h r s)"
    by (rule answered_poll [OF assms(1) i f_def ans(2)]) (use assms(6) that in simp)
  let ?s = "upd_reader h r s"
  have len: "unat (of_nat (length ?ks) :: u8) = Suc (length ks)"
    using assms(3) unat_of_nat_small(3) [of "length ?ks"] by simp
  have p: "rsp_payload ?res = ks @ 0x0d # drop (length ?ks) (rsp_payload (fr_res f))" by simp
  have b: "pin_buf_pos (readers ?s h) = 0" "length (pin_buf (readers ?s h)) = 29"
    using r(1,2) by (simp_all add: idesco_ok_def)
  obtain r' where r': "rd_user_data r' = rd_user_data (readers ?s h)" "idesco_ok (readers ?s h) \<longrightarrow> idesco_ok r'"
    "cfold (key_step cb h tmo (rsp_payload ?res)) [0..<Suc (length ks)] ?s =
      cbind (cb ks DATA_IS_PIN DATA_OK h (rd_user_data (readers ?s h)) (upd_reader h r' ?s))
        (\<lambda>t. Inr (upd_own h (\<lambda>r. r\<lparr>pin_buf_pos := 0, code_timeout := tmo\<rparr>) t))"
    using pin_entry [OF p assms(3-5) b] by blast
  have "handle_answer cs cb h tmo ?res ?s =
      cbind (cfold (key_step cb h tmo (rsp_payload ?res)) [0..<Suc (length ks)] ?s) (ack_step cb h tmo)"
    using len assms(3) char_val_small [of "of_nat (length ?ks)" cs] by (simp add: handle_answer_def Let_def del: upt_Suc)
  also have "\<dots> = cbind (cb ks DATA_IS_PIN DATA_OK h (rd_user_data (readers s h)) (upd_reader h r' s))
      (\<lambda>t. Inr (upd_own h (\<lambda>r. r\<lparr>pin_buf_pos := 0, code_timeout := tmo\<rparr>) t))"
    unfolding r'(3) using r(1)
    by (cases "cb ks DATA_IS_PIN DATA_OK h (rd_user_data (readers s h)) (upd_reader h r' s)")
      (simp_all add: upd_reader_twice ack_step_def)
  finally show ?thesis using r r'(1,2) by (intro that [of r']) simp_all
qed

subsection \<open>The data reach the door\<close>

lemma own_reader:
  assumes "wf_sys idesco_ok rd_user_data s" and "i < length (doors s)" and "reader_side h (door_at s i) = Some sd"
  shows "dr_reader (get_dr sd (door_at s i)) = Some h" "idesco_ok (readers s h)" "rd_user_data (readers s h) = i"
    "wf_dr (get_dr sd (door_at s i))"
proof -
  show sd: "dr_reader (get_dr sd (door_at s i)) = Some h"
    using assms(3) by (auto simp: reader_side_def split: if_splits)
  show "idesco_ok (readers s h)" "rd_user_data (readers s h) = i" "wf_dr (get_dr sd (door_at s i))"
    using assms(1,2) sd wf_doorD(5) [OF wf_sysD [OF assms(1,2)]] by (auto simp: wf_sys_def)
qed

lemma delivery_decides:
  assumes w: "wf_sys idesco_ok rd_user_data s" and c: "creds_sys s" and i: "i < length (doors s)"
    and name: "name = doorName (door_at s i)" "length name \<le> 198" "db_ok db name"
    and sd: "reader_side h (door_at s i) = Some sd" and r: "keeps (readers s h) r"
    and get: "get_reader_data cs (process_user_info (reader_signal cs) db) h 0 s =
      cbind (process_user_info (reader_signal cs) db data ty DATA_OK h i (upd_reader h r s)) (\<lambda>t. Inr (upd_own h g t))"
    and st: "store_data data ty DATA_OK (get_dr sd (door_at s i)) = Inr (dr, None)"
  shows "\<exists>t. poll_reader (reader_signal cs) (get_reader_data cs) db i sd s = Inr t \<and>
    (if access_granted dr name db
     then \<exists>m. m \<noteq> 0 \<and> (unlock_mask m (door_at s i) \<noteq> 0 \<longrightarrow> door_lock_timer (door_at t i) = DOOR_OPEN_TIME \<and>
       (\<forall>l\<in>set (mask_lines (unlock_mask m (door_at s i))). line_level (trace t) l = Some 0))
     else line_level (trace t) = line_level (trace s) \<and> (\<forall>n. unlock_count n (trace t) = unlock_count n (trace s)))"
proof -
  let ?s = "upd_reader h r s"
  have "wf_sys idesco_ok rd_user_data ?s" "creds_sys ?s"
    using r w c by (simp_all add: idesco.wf_upd_reader creds_sys_def)
  moreover have "trace (upd_own h f t) = trace t" "door_at (upd_own h f t) k = door_at t k" for f t k
    by (simp_all add: upd_own_def)
  ultimately show ?thesis
    using idesco.process_user_info_decides [of ?s i name db h sd data ty DATA_OK dr, where cs = cs]
      i name sd st get own_reader(1) [OF w i sd] by (auto simp: poll_reader_def returns_iff)
qed

lemma pin_frame_decides:
  assumes "wf_sys idesco_ok rd_user_data s" and "creds_sys s" and "i < length (doors s)"
    and "name = doorName (door_at s i)" and "length name \<le> 198" and "db_ok db name"
    and "reader_side h (door_at s i) = Some sd" and "dr = get_dr sd (door_at s i)" and "pinLen dr = 0"
    and "incoming (readers s h) = Some (osdp_frame a osdp_KPD (n # of_nat (Suc (length ks)) # ks @ [0x0d])) # rest"
    and "length ks \<le> 16" and "0x7f \<notin> set ks" and "0x0d \<notin> set ks" and "pin_buf_pos (readers s h) = 0"
  shows "\<exists>t. poll_reader (reader_signal cs) (get_reader_data cs) db i sd s = Inr t \<and>
    (if access_granted (dr\<lparr>dr_pin := ks @ 0 # drop (Suc (length ks)) (dr_pin dr), pinLen := length ks\<rparr>) name db
     then \<exists>m. m \<noteq> 0 \<and> (unlock_mask m (door_at s i) \<noteq> 0 \<longrightarrow> door_lock_timer (door_at t i) = DOOR_OPEN_TIME \<and>
       (\<forall>l\<in>set (mask_lines (unlock_mask m (door_at s i))). line_level (trace t) l = Some 0))
     else line_level (trace t) = line_level (trace s) \<and> (\<forall>n. unlock_count n (trace t) = unlock_count n (trace s)))"
proof -
  note own = own_reader [OF assms(1,3,7)]
  have len: "length ks \<le> 28" using assms(11) by simp
  obtain r where r: "keeps (readers s h) r" "get_reader_data cs (process_user_info (reader_signal cs) db) h 0 s =
      cbind (process_user_info (reader_signal cs) db ks DATA_IS_PIN DATA_OK h i (upd_reader h r s))
        (\<lambda>t. Inr (upd_own h (\<lambda>r. r\<lparr>pin_buf_pos := 0, code_timeout := 0\<rparr>) t))"
    by (rule keys_frame_poll [OF own(2) assms(10) len assms(12-14), where cs = cs and cb = "process_user_info (reader_signal cs) db" and tmo = 0])
      (use own(3) that in simp_all)
  have "(drop (length ks) (dr_pin dr))[0 := 0] = 0 # drop (Suc (length ks)) (dr_pin dr)"
    using own(4) assms(8,11) by (simp add: wf_dr_def Cons_nth_drop_Suc [symmetric])
  then have "(ks @ drop (length ks) (dr_pin dr))[length ks := 0] = ks @ 0 # drop (Suc (length ks)) (dr_pin dr)"
    by (simp add: list_update_append)
  then have "store_data ks DATA_IS_PIN DATA_OK (get_dr sd (door_at s i)) =
      Inr (dr\<lparr>dr_pin := ks @ 0 # drop (Suc (length ks)) (dr_pin dr), pinLen := length ks\<rparr>, None)"
    using own(4) assms(8,9,11) by (simp add: store_data_def MAX_PIN_LEN_def memcpy_def store_def wf_dr_def Let_def)
  then show ?thesis by (rule delivery_decides [OF assms(1-7) r])
qed

subsection \<open>The sample doors\<close>

lemma sample_granted:
  "accessMode dr = MODE_CARD \<and> cardLen dr \<noteq> 0 \<or> accessMode dr = MODE_PIN \<and> pinLen dr \<noteq> 0 \<Longrightarrow>
   access_granted dr name (sample_db 7)"
  by (auto simp: access_granted_def db_grants_def sample_rows row_grants_def sample_row_def) (simp_all add: sample_db_def)

lemma sample_opened:
  assumes "unlock_mask m d \<noteq> 0 \<longrightarrow> tm = DOOR_OPEN_TIME \<and> (\<forall>l\<in>set (mask_lines (unlock_mask m d)). lev l = Some (0 :: nat))"
    and "maskOffset d = 0" "maskFull d = 1" "airLockMask d = 0" "admDisableMask d = 0" "bit m 0"
  shows "tm = 13 \<and> lev 13 = Some 0"
proof -
  have "unlock_mask m d = 1" using assms(2-6) by (simp add: unlock_mask_def and_one_eq bit_0 mod_2_eq_odd)
  moreover have "mask_lines 1 = [13]" by code_simp
  ultimately show ?thesis using assms(1) by (simp add: DOOR_OPEN_TIME_def)
qed

text \<open>The two sample doors, with an access mode and an answer of the reader of the first.\<close>

definition mode_sys :: "u8 \<Rightarrow> read_result list \<Rightarrow> idesco_reader sys" where
  "mode_sys mode answers = upd_reader 0 (sample_link 0\<lparr>incoming := answers\<rparr>)
     (upd_door 0 (set_dr SideA (idle_dr (Some 0) mode)) (sample_sys 0x0e))"

lemma mode_sys_door:
  "door_at (mode_sys mode answers) 0 = set_dr SideA (idle_dr (Some 0) mode) (sample_door ''in'' 0 (Some 1) 0 0x0e)"
  "length (doors (mode_sys mode answers)) = 2" "trace (mode_sys mode answers) = []"
  by (simp_all add: mode_sys_def sample_doors)

lemma mode_sys_reader:
  "reader_side 0 (door_at (mode_sys mode answers) 0) = Some SideA" "get_dr SideA (door_at (mode_sys mode answers) 0) = idle_dr (Some 0) mode"
  "doorName (door_at (mode_sys mode answers) 0) = ''in''" "incoming (readers (mode_sys mode answers) 0) = answers"
  "pin_buf_pos (readers (mode_sys mode answers) 0) = 0"
  unfolding mode_sys_door by (simp_all add: sample_door_def reader_side_def idle_dr_def mode_sys_def sample_link_def)

lemma mode_sys_good:
  assumes "\<forall>rd\<in>set answers. safe_read rd"
  shows "good (mode_sys mode answers)"
proof -
  let ?t = "upd_door 0 (set_dr SideA (idle_dr (Some 0) mode)) (sample_sys 0x0e)"
  have g: "wf_sys idesco_ok rd_user_data (sample_sys 0x0e)" "creds_sys (sample_sys 0x0e)"
    using sample_good [of "0x0e"] by auto
  have "wf_sys idesco_ok rd_user_data ?t"
  proof (rule idesco.wf_upd_door [OF g(1)])
    show "wf_door (length (doors (sample_sys 0x0e))) 0 (set_dr SideA (idle_dr (Some 0) mode) (door_at (sample_sys 0x0e) 0))"
      using wf_sysD [OF g(1), of 0] by (simp add: sample_doors wf_door_def all_sides sample_dr)
    show "dr_reader (get_dr sd (set_dr SideA (idle_dr (Some 0) mode) (door_at (sample_sys 0x0e) 0))) = dr_reader (get_dr sd (door_at (sample_sys 0x0e) 0))" for sd
      by (cases sd) (simp_all add: sample_doors sample_door_def idle_dr_def)
  qed
  moreover have "idesco_ok (sample_link 0\<lparr>incoming := answers\<rparr>)" "rd_user_data (sample_link 0\<lparr>incoming := answers\<rparr>) = rd_user_data (readers ?t 0)"
    using sample_link_ok [of 0] assms by (simp_all add: idesco_ok_def sample_sys_def)
  moreover have "creds_sys ?t"
    using g(2) by (auto simp: creds_sys_def sample_doors all_sides sample_dr less_2_cases)
  ultimately show ?thesis
    unfolding mode_sys_def by (simp add: idesco.wf_upd_reader creds_sys_def)
qed

subsection \<open>Properties\<close>





end
