(* ===== verification/Two_Factor.thy ===== *)
theory Two_Factor
  imports Reader_To_Lock
begin

text \<open>
  The two factor dialogue of a door reader, from the serial line to the lock: a card that is held
  without opening anything, and the PIN that follows it.
\<close>

subsection \<open>Holding the first factor\<close>

context reader_signals begin

lemma process_user_info_holds:
  assumes w: "wf s" and c: "creds_sys s" and i: "i < length (doors s)" and name: "name = doorName (door_at s i)"
    and db: "db_ok db name" and sd: "reader_side h (door_at s i) = Some sd"
    and st: "store_data data ty md (get_dr sd (door_at s i)) = Inr (dr, None)"
    and sw: "auth_switch dr name db = Inr (dr2, 0, [], True)" and tf: "tf_timer dr2 \<noteq> 0"
  shows "returns (process_user_info rsig db data ty md h i s) (\<lambda>t. wf t \<and> creds_sys t \<and> static_sys t = static_sys s \<and>
    get_dr sd (door_at t i) = dr2 \<and> line_level (trace t) = line_level (trace s) \<and>
    rsig SIGNAL_PIN (readers s h) = Inr (readers t h))"
proof -
  show ?thesis
  proof (rule info_accepted [OF w c i name db sd st])
    fix dr' m evs ask t
    assume a: "auth_switch dr name db = Inr (dr', m, evs, ask)"
      "process_user_info rsig db data ty md h i s = finish_info h i sd m dr' t"
      "agree (upd_dr i sd (\<lambda>_. dr') (emit (map Event evs) s)) t" "run s t"
      "ask \<Longrightarrow> rsig SIGNAL_PIN (readers s h) = Inr (readers t h)"
    then have e: "dr' = dr2" "m = 0" "evs = []" "ask" using sw by simp_all
    then have "process_user_info rsig db data ty md h i s = Inr t"
      using a(2) tf by (simp add: finish_info_def)
    then show ?thesis
      using process_user_info_ok [OF w c i, of db data ty md h] db name a(3-5) line_level_agree [OF a(3)] i
      by (auto simp: e agree_door_at quiet_run_static intro: quiet_run_wf)
  qed
qed

end
subsection \<open>The dialogue\<close>

lemma card_store:
  assumes "wf_dr dr" and "cardLen dr = 0" and "length crd \<le> 16"
  shows "store_data crd DATA_IS_CARD DATA_OK dr = Inr (dr\<lparr>dr_card := crd @ drop (length crd) (dr_card dr), cardLen := length crd\<rparr>, None)"
  using assms by (simp add: store_data_def MAX_CARD_LEN_def memcpy_def wf_dr_def Let_def)

lemma first_factor_held:
  assumes w: "wf_sys idesco_ok rd_user_data s" and c: "creds_sys s" and i: "i < length (doors s)"
    and name: "name = doorName (door_at s i)" and db: "db_ok db name"
    and sd: "reader_side h (door_at s i) = Some sd" and dr: "dr = get_dr sd (door_at s i)"
    and mode: "accessMode dr = MODE_CARD_AND_PIN_ALWAYS" and tf: "tf_timer dr = 0"
    and inc: "incoming (readers s h) = Some (osdp_frame a osdp_RAW (hdr @ crd)) # rest"
    and len: "length hdr = 4" "0 < length crd" "length crd \<le> 16"
  shows "returns (poll_reader (reader_signal cs) (get_reader_data cs) db i sd s) (\<lambda>t.
    wf_sys idesco_ok rd_user_data t \<and> creds_sys t \<and> static_sys t = static_sys s \<and>
    get_dr sd (door_at t i) = dr\<lparr>dr_card := crd @ drop (length crd) (dr_card dr), cardLen := length crd, tf_timer := TWO_FACTOR_TIME\<rparr> \<and>
    pin_buf_pos (readers t h) = 0 \<and> incoming (readers t h) = tl (tl rest) \<and> line_level (trace t) = line_level (trace s))"
proof -
  let ?cb = "process_user_info (reader_signal cs) db" and ?dr = "dr\<lparr>dr_card := crd @ drop (length crd) (dr_card dr), cardLen := length crd\<rparr>"
  note own = own_reader [OF w i sd]
  have none: "cardLen dr = 0" "pinLen dr = 0"
    using c i tf dr by (auto simp: creds_sys_def creds_ok_def)
  have len52: "length crd \<le> 52" using len(3) by simp
  obtain r where r: "keeps (readers s h) r" "incoming r = rest" "get_reader_data cs ?cb h 0 s =
      cbind (?cb crd DATA_IS_CARD DATA_OK h i (upd_reader h r s)) (\<lambda>t. Inr (upd_own h (\<lambda>r. r\<lparr>pin_buf_pos := 0\<rparr>) t))"
    by (rule card_frame_poll [OF own(2) inc len(1,2) len52, where cs = cs and cb = ?cb and tmo = 0]) (use own(3) that in simp_all)
  let ?s = "upd_reader h r s"
  have w': "wf_sys idesco_ok rd_user_data ?s" "creds_sys ?s"
    using r w c by (simp_all add: idesco.wf_upd_reader creds_sys_def)
  have st: "store_data crd DATA_IS_CARD DATA_OK (get_dr sd (door_at ?s i)) = Inr (?dr, None)"
    using card_store [of dr crd] own(4) none(1) len(3) dr by simp
  have sw: "auth_switch ?dr name db = Inr (?dr\<lparr>tf_timer := TWO_FACTOR_TIME\<rparr>, 0, [], True)"
    using mode tf none(2) by (simp add: auth_switch_def start_two_factor_def)
  have "returns (?cb crd DATA_IS_CARD DATA_OK h i ?s) (\<lambda>t. wf_sys idesco_ok rd_user_data t \<and> creds_sys t \<and>
      static_sys t = static_sys ?s \<and> get_dr sd (door_at t i) = ?dr\<lparr>tf_timer := TWO_FACTOR_TIME\<rparr> \<and>
      line_level (trace t) = line_level (trace ?s) \<and> reader_signal cs SIGNAL_PIN (readers ?s h) = Inr (readers t h))"
    by (rule idesco.process_user_info_holds [OF w' _ _ db _ st sw]) (use i name sd in \<open>simp_all add: TWO_FACTOR_TIME_def\<close>)
  then obtain t where t: "?cb crd DATA_IS_CARD DATA_OK h i ?s = Inr t" "wf_sys idesco_ok rd_user_data t" "creds_sys t"
    "static_sys t = static_sys s" "get_dr sd (door_at t i) = ?dr\<lparr>tf_timer := TWO_FACTOR_TIME\<rparr>"
    "line_level (trace t) = line_level (trace s)" "reader_signal cs SIGNAL_PIN r = Inr (readers t h)"
    by (auto simp: returns_iff)
  have inc': "incoming (readers t h) = tl (tl rest)" using signal_pin_incoming [OF t(7)] r(2) by simp
  have "wf_sys idesco_ok rd_user_data (upd_own h (\<lambda>r. r\<lparr>pin_buf_pos := 0\<rparr>) t)"
    using t(2) unfolding upd_own_def by (intro idesco.wf_upd_reader) (simp_all add: wf_sys_def)
  then show ?thesis
    using t(1-6) inc' own(1) r(3) by (simp add: poll_reader_def) (simp add: upd_own_def creds_sys_def)
qed

lemma reader_side_static: "static_door d = static_door d' \<Longrightarrow> reader_side h d = reader_side h d'"
  by (simp add: static_door_def reader_side_def)

lemma both_factors_granted:
  assumes "accessMode dr = MODE_CARD_AND_PIN_ALWAYS" and "0 < length crd" and "0 < length ks"
  shows "access_granted (dr\<lparr>dr_card := crd @ xs, cardLen := length crd, tf_timer := tf, dr_pin := ks @ ys, pinLen := length ks\<rparr>) name db \<longleftrightarrow>
    db_grants db name MODE_CARD_AND_PIN_ALWAYS ks crd"
  using assms by (simp add: access_granted_def)

subsection \<open>Properties\<close>


definition pin_db :: auth_db where
  "pin_db = \<lparr>db_query = (\<lambda>sql. Some [sample_row\<lparr>col_userPin := Some (mode_pin_md5 MODE_CARD_AND_PIN_ALWAYS [0x31, 0x37])\<rparr>]), db_time = 7\<rparr>"

lemma pin_db_facts:
  "db_ok pin_db ''in''" "db_grants pin_db ''in'' MODE_CARD_AND_PIN_ALWAYS [0x31, 0x37] crd"
proof -
  have rows: "step_rows pin_db sql = [sample_row\<lparr>col_userPin := Some (mode_pin_md5 MODE_CARD_AND_PIN_ALWAYS [0x31, 0x37])\<rparr>]" for sql
    by (simp add: step_rows_def pin_db_def)
  have "row_subdoor_is ''in'' 0 (sample_row\<lparr>col_userPin := p\<rparr>)" for p
    by (simp add: row_subdoor_is_def row_subdoor_def)
  then show "db_ok pin_db ''in''"
    unfolding db_ok_def by (auto simp: rows row_ok_def intro: exI [of _ 0])
  show "db_grants pin_db ''in'' MODE_CARD_AND_PIN_ALWAYS [0x31, 0x37] crd"
    by (simp add: db_grants_def rows row_grants_def) (simp add: pin_db_def sample_row_def)
qed

definition card_then_pin :: "read_result list" where
  "card_then_pin = [Some (osdp_frame 0 osdp_RAW [0, 0, 16, 0, 0xa9, 0x3c]), None, None,
     Some (osdp_frame 0 osdp_KPD [0, 3, 0x31, 0x37, 0x0d])]"


end
