(* ===== verification/Epso.thy ===== *)
theory Epso
  imports C_Text "HOL-Library.While_Combinator"
begin

text \<open>
  The protocol of the EPSO readers (\<open>readers/epso/epso.c\<close>): checksum, request frames, and the
  exchange of a request and its answer.

  The link is outside: \<open>lk_select n\<close> is the result of the \<open>n\<close>-th call of \<open>select\<close>,
  \<open>lk_read n count\<close> what the \<open>n\<close>-th \<open>read\<close> of at most \<open>count\<close> bytes yields (\<open>None\<close> an
  error), \<open>lk_write n\<close> the result of the \<open>n\<close>-th \<open>write\<close>. The link also counts the calls and
  keeps the frames written. A \<open>NULL\<close> buffer is the empty array: both fault when dereferenced.
  The loop that collects an answer need not end; \<open>None\<close> is a call that never returns.
\<close>

definition SOH :: u8 where "SOH = 1"
definition STX :: u8 where "STX = 2"
definition ETX :: u8 where "ETX = 3"

record epso_link =
  lk_select :: "nat \<Rightarrow> int"
  lk_read :: "nat \<Rightarrow> nat \<Rightarrow> u8 list option"
  lk_write :: "nat \<Rightarrow> int"
  lk_selects :: nat
  lk_reads :: nat
  lk_frames :: "u8 list list"

definition select_call :: "epso_link \<Rightarrow> int \<times> epso_link" where
  "select_call l = (lk_select l (lk_selects l), l\<lparr>lk_selects := Suc (lk_selects l)\<rparr>)"

definition read_call :: "nat \<Rightarrow> epso_link \<Rightarrow> u8 list option \<times> epso_link" where
  "read_call count l = (lk_read l (lk_reads l) count, l\<lparr>lk_reads := Suc (lk_reads l)\<rparr>)"

subsection \<open>Requests\<close>

text \<open>The loop runs over a counter of 8 bits, and so does the length.\<close>

definition epso_checksum :: "u8 list \<Rightarrow> u8 \<Rightarrow> u8 cres" where
  "epso_checksum buf len =
     cbind (cfold (\<lambda>i sum. cbind (fetch buf i) (\<lambda>b. Inr (sum XOR b))) [0..<unat len] 0) (\<lambda>sum. Inr (sum OR 0x20))"

text \<open>\<open>%02d\<close> and \<open>%02X\<close>.\<close>

definition dec2 :: "nat \<Rightarrow> string" where
  "dec2 n = (if n < 10 then CHR ''0'' # num_string 10 n else num_string 10 n)"

definition hex2 :: "nat \<Rightarrow> string" where
  "hex2 n = [hex_digit True (n div 16 mod 16), hex_digit True (n mod 16)]"

definition bytes_of :: "string \<Rightarrow> u8 list" where
  "bytes_of s = map of_char s"

definition text_of :: "u8 list \<Rightarrow> string" where
  "text_of bs = map (\<lambda>b. char_of (unat b)) bs"

definition request_text :: "u8 \<Rightarrow> u8 \<Rightarrow> u8 \<Rightarrow> u8 list" where
  "request_text addr func data =
     bytes_of (''_S'' @ dec2 (unat addr) @ hex2 (unat func) @ ''_'') @
     (if func = 0xFF then [data] else bytes_of (num_string 10 (unat data))) @ bytes_of ''_''"

text \<open>The frame built in the 16 byte array: text of at most 14 characters with its terminator.\<close>

definition request_frame :: "u8 \<Rightarrow> u8 \<Rightarrow> u8 \<Rightarrow> u8 list \<Rightarrow> u8 list cres" where
  "request_frame addr func data junk =
     (let text = request_text addr func data;
          pos = (of_nat (length text) :: u8);
          pos = (if pos > 15 then 15 else pos)
      in cbind (memcpy junk 0 (take 14 text @ [0]) 0 (length (take 14 text @ [0]))) (\<lambda>buf.
         cbind (store buf 0 SOH) (\<lambda>buf.
         cbind (store buf 6 STX) (\<lambda>buf.
         cbind (store buf (unat (pos - 1)) ETX) (\<lambda>buf.
         cbind (epso_checksum buf pos) (\<lambda>sum.
         cbind (store buf (unat pos) sum) (\<lambda>buf.
         Inr (take (Suc (unat pos)) buf))))))))"

definition epso_write :: "u8 \<Rightarrow> u8 \<Rightarrow> u8 \<Rightarrow> epso_link \<Rightarrow> (int \<times> epso_link) cres" where
  "epso_write addr func data l =
     cbind (request_frame addr func data (replicate 16 0)) (\<lambda>frame.
     Inr (if lk_write l (length (lk_frames l)) \<noteq> int (length frame) then - 11 else 0,
          l\<lparr>lk_frames := lk_frames l @ [frame]\<rparr>))"

subsection \<open>Answers\<close>

text \<open>
  The loop that reads the rest of an answer. A failed \<open>read\<close> lowers the position by one, and
  ends the call only when that makes it negative. The position never exceeds \<open>buf_len\<close>.
\<close>

datatype rest_state =
    Reading epso_link "u8 list" int
  | Received epso_link "u8 list" int
  | Read_error epso_link "u8 list"
  | Read_fault c_fault

fun is_Reading :: "rest_state \<Rightarrow> bool" where
  "is_Reading (Reading l buf pos) = True"
| "is_Reading _ = False"

fun rest_step :: "nat \<Rightarrow> rest_state \<Rightarrow> rest_state" where
  "rest_step buf_len (Reading l buf buf_pos) =
     (let (ret, l) = select_call l
      in if ret > 0
         then let (r, l) = read_call (nat (int buf_len - buf_pos)) l
              in case r of
                   None \<Rightarrow> if buf_pos - 1 < 0 then Read_error l buf else Reading l buf (buf_pos - 1)
                 | Some bs \<Rightarrow>
                     (case memcpy buf (nat buf_pos) bs 0 (length bs) of
                        Inl e \<Rightarrow> Read_fault e
                      | Inr buf \<Rightarrow> Reading l buf (buf_pos + int (length bs)))
         else Received l buf buf_pos)"
| "rest_step buf_len s = s"

definition read_rest :: "nat \<Rightarrow> epso_link \<Rightarrow> u8 list \<Rightarrow> int \<Rightarrow> rest_state option" where
  "read_rest buf_len l buf buf_pos = while_option is_Reading (rest_step buf_len) (Reading l buf buf_pos)"

text \<open>\<open>while (buf[0] == 0) buf++\<close>: the number of zero bytes at the start of the array.\<close>

definition skip_zeros :: "u8 list \<Rightarrow> nat cres" where
  "skip_zeros buf =
     (let k = length (takeWhile (\<lambda>b. b = 0) buf) in if k < length buf then Inr k else Inl Out_of_bounds)"

text \<open>
  Moving the payload to the front, in the array it is read from: \<open>k\<close> zero bytes were skipped.
  The index \<open>j\<close> has 8 bits; \<open>j = -40\<close> before the loop is 216.
\<close>

fun copy_payload :: "nat \<Rightarrow> nat \<Rightarrow> nat list \<Rightarrow> u8 list \<Rightarrow> u8 \<Rightarrow> (int \<times> u8 list) cres" where
  "copy_payload buf_len k [] buf_out j = Inr (uint j + 1, buf_out)"
| "copy_payload buf_len k (i # is) buf_out j =
     (let j = of_nat (i - 7)
      in if unat j = buf_len then Inr (- 32, buf_out)
         else cbind (fetch buf_out (k + i)) (\<lambda>b.
              cbind (store buf_out (unat j) b) (\<lambda>buf_out.
              copy_payload buf_len k is buf_out j)))"

definition check_answer :: "nat \<Rightarrow> u8 list \<Rightarrow> int \<Rightarrow> (int \<times> u8 list) cres" where
  "check_answer buf_len buf_out buf_pos =
     cbind (skip_zeros buf_out) (\<lambda>k.
     let buf_pos = buf_pos - int k
     in if buf_pos < 3 then Inr (- 24, buf_out)
        else cbind (epso_checksum (drop k buf_out) (word_of_int (buf_pos - 1))) (\<lambda>check_sum.
             cbind (fetch buf_out (k + nat (buf_pos - 1))) (\<lambda>b.
             if b \<noteq> check_sum then Inr (- 30, buf_out)
             else if buf_out = [] then Inr (0, buf_out)
             else copy_payload buf_len k [7..<nat (buf_pos - 2)] buf_out (- 40))))"

definition epso_write_read ::
  "u8 \<Rightarrow> u8 \<Rightarrow> u8 \<Rightarrow> u8 list \<Rightarrow> nat \<Rightarrow> epso_link \<Rightarrow> (int \<times> u8 list \<times> epso_link) cres option" where
  "epso_write_read addr func data buf_out buf_len l =
     (case epso_write addr func data l of
        Inl e \<Rightarrow> Some (Inl e)
      | Inr (_, l) \<Rightarrow>
          let (ret, l) = select_call l
          in if ret > 0
             then let (r, l) = read_call buf_len l
                  in case r of
                       None \<Rightarrow> Some (Inr (- 21, buf_out, l))
                     | Some bs \<Rightarrow>
                         (case memcpy buf_out 0 bs 0 (length bs) of
                            Inl e \<Rightarrow> Some (Inl e)
                          | Inr buf \<Rightarrow>
                              (case read_rest buf_len l buf (int (length bs)) of
                                 None \<Rightarrow> None
                               | Some (Read_fault e) \<Rightarrow> Some (Inl e)
                               | Some (Read_error l buf) \<Rightarrow> Some (Inr (- 22, buf, l))
                               | Some (Reading l buf buf_pos) \<Rightarrow> None
                               | Some (Received l buf buf_pos) \<Rightarrow>
                                   Some (cbind (check_answer buf_len buf buf_pos) (\<lambda>(ret, buf). Inr (ret, buf, l)))))
             else if ret = 0 then Some (Inr (- 20, buf_out, l))
             else Some (Inr (- 23, buf_out, l)))"

subsection \<open>Card and PIN\<close>

definition store_at :: "u8 list \<Rightarrow> int \<Rightarrow> u8 \<Rightarrow> u8 list cres" where
  "store_at buf i v = (if i < 0 then Inl Out_of_bounds else store buf (nat i) v)"

text \<open>
  The payload in \<open>buf\<close>, of length \<open>len\<close>: a card number after \<open>R\<close> in 16 digits, a PIN up to
  the next colon. What \<open>index\<close> yields without a colon is \<open>NULL\<close>, which is written to.
  \<open>ulong_max\<close> is the largest \<open>unsigned long\<close> of the target.
\<close>

definition parse_pin :: "int \<Rightarrow> u8 list \<Rightarrow> nat \<Rightarrow> u64 option cres" where
  "parse_pin ulong_max buf p =
     cbind (fetch buf p) (\<lambda>b.
     if b = 0x3a then Inr None
     else let seg = takeWhile (\<lambda>b. b \<notin> {0, 0x3a}) (drop p buf)
          in cbind (fetch buf (p + length seg)) (\<lambda>b.
             if b = 0 then Inl Null_pointer
             else Inr (Some (strtoul ulong_max 10 (text_of seg)))))"

definition parse_answer :: "int \<Rightarrow> u8 list \<Rightarrow> int \<Rightarrow> (u64 option \<times> u64 option) cres" where
  "parse_answer ulong_max buf len =
     (if len > 4
      then cbind (fetch buf 0) (\<lambda>b.
           if b = 0x52
           then cbind (store buf 17 0) (\<lambda>buf.
                let card = strtoul (2 ^ 64 - 1) 16 (cstring (text_of (drop 1 buf)))
                in cbind (parse_pin ulong_max buf 18) (\<lambda>pin. Inr (Some card, pin)))
           else cbind (parse_pin ulong_max buf 1) (\<lambda>pin. Inr (None, pin)))
      else Inr (None, None))"

text \<open>The bits of the result are whether there is a card and a PIN.\<close>

definition readCardPin ::
  "int \<Rightarrow> u8 \<Rightarrow> u8 list \<Rightarrow> nat \<Rightarrow> epso_link \<Rightarrow> ((u64 option \<times> u64 option) \<times> epso_link) cres option" where
  "readCardPin ulong_max addr buf bufSize l =
     (case epso_write_read addr 0xA5 0x33 buf bufSize l of
        None \<Rightarrow> None
      | Some r \<Rightarrow> Some (cbind r (\<lambda>(len, buf, l).
          cbind (store_at buf len 0) (\<lambda>buf.
          cbind (parse_answer ulong_max buf len) (\<lambda>res. Inr (res, l))))))"

subsection \<open>Lemmas: requests\<close>

definition xor_sum :: "u8 list \<Rightarrow> u8" where
  "xor_sum bs = fold (\<lambda>b s. s XOR b) bs 0"

lemma checksum_loop:
  "n \<le> length buf \<Longrightarrow>
     cfold (\<lambda>i sum. cbind (fetch buf i) (\<lambda>b. Inr (sum XOR b))) [0..<n] s = Inr (fold (\<lambda>b s. s XOR b) (take n buf) s)"
proof (induction n arbitrary: s)
  case (Suc n)
  then show ?case by (simp add: cfold_append fetch_def take_Suc_conv_app_nth)
qed simp

lemma epso_checksum_eq: "unat len \<le> length buf \<Longrightarrow> epso_checksum buf len = Inr (xor_sum (take (unat len) buf) OR 0x20)"
  by (simp add: epso_checksum_def checksum_loop xor_sum_def)

lemma num_string_small:
  "n < 10 \<Longrightarrow> num_string 10 n = [hex_digit False n]"
  "10 \<le> n \<Longrightarrow> n < 100 \<Longrightarrow> num_string 10 n = [hex_digit False (n div 10), hex_digit False (n mod 10)]"
  "100 \<le> n \<Longrightarrow> n < 1000 \<Longrightarrow> num_string 10 n = [hex_digit False (n div 10 div 10), hex_digit False (n div 10 mod 10), hex_digit False (n mod 10)]"
  by (simp_all add: num_string.simps [of 10 n] num_string.simps [of 10 "n div 10"] num_string.simps [of 10 "n div 10 div 10"]
      div_less_dividend less_mult_imp_div_less)

lemma dec2_short: "n < 100 \<Longrightarrow> \<exists>a b. dec2 n = [a, b]"
  by (cases "n < 10") (simp_all add: dec2_def num_string_small)

lemma dec2_long: "100 \<le> n \<Longrightarrow> n < 1000 \<Longrightarrow> \<exists>a b c. dec2 n = [a, b, c]"
  by (simp add: dec2_def num_string_small)

definition data_bytes :: "u8 \<Rightarrow> u8 \<Rightarrow> u8 list" where
  "data_bytes func data = (if func = 0xFF then [data] else bytes_of (num_string 10 (unat data)))"

lemma data_bytes_cases: "(\<exists>a. data_bytes f d = [a]) \<or> (\<exists>a b. data_bytes f d = [a, b]) \<or> (\<exists>a b c. data_bytes f d = [a, b, c])"
proof -
  have "unat d < 1000" using unsigned_less [of d, where 'a = nat] by simp
  then consider "unat d < 10" | "10 \<le> unat d" "unat d < 100" | "100 \<le> unat d" "unat d < 1000" by linarith
  then show ?thesis by cases (simp_all add: data_bytes_def bytes_of_def num_string_small)
qed

definition frame_body :: "u8 \<Rightarrow> u8 \<Rightarrow> u8 \<Rightarrow> u8 list" where
  "frame_body addr func data =
     SOH # bytes_of (''S'' @ dec2 (unat addr)) @
       (if addr < 100 then bytes_of (hex2 (unat func)) @ [STX]
        else [of_char (hex_digit True (unat func div 16 mod 16)), STX] @ bytes_of ''_'') @
       data_bytes func data @ [ETX]"

lemma request_frame_eq:
  assumes "length junk = 16"
  shows "request_frame addr func data junk = Inr (frame_body addr func data @ [xor_sum (frame_body addr func data) OR 0x20])"
proof -
  have t: "request_text addr func data = bytes_of (''_S'' @ dec2 (unat addr) @ hex2 (unat func) @ ''_'') @ data_bytes func data @ bytes_of ''_''"
    by (simp add: request_text_def data_bytes_def)
  obtain j0 j1 j2 j3 j4 j5 j6 j7 j8 j9 j10 j11 j12 j13 j14 j15
    where j: "junk = [j0, j1, j2, j3, j4, j5, j6, j7, j8, j9, j10, j11, j12, j13, j14, j15]"
    using assms by (auto simp: numeral_eq_Suc length_Suc_conv)
  note eval = request_frame_def t frame_body_def bytes_of_def hex2_def Let_def memcpy_def store_def epso_checksum_eq j
  consider (short) a b where "addr < 100" "dec2 (unat addr) = [a, b]" | (long) a b c where "\<not> addr < 100" "dec2 (unat addr) = [a, b, c]"
    using dec2_short [of "unat addr"] dec2_long [of "unat addr"] unsigned_less [of addr, where 'a = nat]
    by (fastforce simp: word_less_nat_alt)
  then show ?thesis
  proof cases
    case short
    then show ?thesis using data_bytes_cases [of func data] by (elim disjE exE) (simp_all add: eval)
  next
    case long
    then show ?thesis using data_bytes_cases [of func data] by (elim disjE exE) (simp_all add: eval)
  qed
qed

subsection \<open>Lemmas: answers\<close>

text \<open>
  The link hands out the chunks \<open>cs\<close>, one after each \<open>select\<close>, and is then silent.
\<close>

definition delivers :: "epso_link \<Rightarrow> u8 list list \<Rightarrow> bool" where
  "delivers l cs \<longleftrightarrow>
     (\<forall>k<length cs. 0 < lk_select l (lk_selects l + k) \<and>
        (\<forall>n. length (cs ! k) \<le> n \<longrightarrow> lk_read l (lk_reads l + k) n = Some (cs ! k))) \<and>
     lk_select l (lk_selects l + length cs) \<le> 0"

definition advance :: "nat \<Rightarrow> nat \<Rightarrow> epso_link \<Rightarrow> epso_link" where
  "advance m n l = l\<lparr>lk_selects := lk_selects l + m, lk_reads := lk_reads l + n\<rparr>"

lemma delivers_Nil: "delivers l [] \<longleftrightarrow> lk_select l (lk_selects l) \<le> 0"
  by (simp add: delivers_def)

lemma delivers_Cons:
  "delivers l (c # cs) \<longleftrightarrow>
     0 < lk_select l (lk_selects l) \<and> (\<forall>n. length c \<le> n \<longrightarrow> lk_read l (lk_reads l) n = Some c) \<and> delivers (advance 1 1 l) cs"
  unfolding delivers_def advance_def by (auto simp: less_Suc_eq_0_disj)

lemma read_rest_delivers:
  assumes "delivers l cs" and "length b = pos" and "pos + length (concat cs) \<le> buf_len" and "length (concat cs) \<le> length r"
  shows "read_rest buf_len l (b @ r) (int pos) =
    Some (Received (advance (Suc (length cs)) (length cs) l) (b @ concat cs @ drop (length (concat cs)) r) (int (pos + length (concat cs))))"
  using assms
proof (induction cs arbitrary: l b r pos)
  case Nil
  then show ?case
    unfolding read_rest_def
    by (subst while_option_unfold, subst while_option_unfold) (simp add: delivers_Nil select_call_def advance_def)
next
  case (Cons c cs)
  let ?l = "advance 1 1 l"
  have c: "length c \<le> nat (int buf_len - int pos)" "lk_read l (lk_reads l) (nat (int buf_len - int pos)) = Some c"
    and d: "delivers ?l cs" "0 < lk_select l (lk_selects l)"
    using Cons.prems by (auto simp: delivers_Cons)
  have "read_rest buf_len l (b @ r) (int pos) = read_rest buf_len ?l (b @ c @ drop (length c) r) (int (pos + length c))"
    unfolding read_rest_def
    by (subst while_option_unfold)
       (use c d(2) Cons.prems in \<open>simp add: select_call_def read_call_def advance_def Let_def memcpy_def\<close>)
  also have "\<dots> = Some (Received (advance (Suc (length cs)) (length cs) ?l)
      ((b @ c) @ concat cs @ drop (length (concat cs)) (drop (length c) r)) (int (pos + length c + length (concat cs))))"
    using Cons.IH [OF d(1), of "b @ c" "pos + length c" "drop (length c) r"] Cons.prems by simp
  finally show ?case by (simp add: advance_def add.assoc add.commute [of "length c"])
qed

subsection \<open>Moving the payload\<close>

definition moved :: "nat \<Rightarrow> u8 list \<Rightarrow> u8 list" where
  "moved n b = take n (drop 7 b) @ drop n b"

lemma moved_step:
  assumes "n + 7 < length b"
  shows "(moved n b)[n := b ! (n + 7)] = moved (Suc n) b" and "moved n b ! (n + 7) = b ! (n + 7)" and "n < length (moved n b)"
proof -
  have l: "length (take n (drop 7 b)) = n" using assms by simp
  show "(moved n b)[n := b ! (n + 7)] = moved (Suc n) b"
    using assms l take_Suc_conv_app_nth [of n "drop 7 b"] Cons_nth_drop_Suc [of n b, symmetric]
    by (simp add: moved_def list_update_append add.commute)
  show "moved n b ! (n + 7) = b ! (n + 7)" using assms l by (simp add: moved_def nth_append add.commute)
  show "n < length (moved n b)" using assms by (simp add: moved_def)
qed

lemma copy_payload_moves:
  assumes "n + k = m" and "m + 7 \<le> length b" and "m \<le> buf_len" and "m \<le> 256"
  shows "copy_payload buf_len 0 [n + 7..<m + 7] (moved n b) j =
    Inr (if k = 0 then uint j + 1 else int m, moved m b)"
  using assms
proof (induction k arbitrary: n j)
  case (Suc k)
  have i: "[n + 7..<m + 7] = (n + 7) # [Suc n + 7..<m + 7]" using Suc.prems by (simp add: upt_rec)
  have u: "unat (of_nat n :: u8) = n" using Suc.prems by (simp add: unat_of_nat take_bit_eq_mod)
  have f: "fetch (moved n b) (n + 7) = Inr (b ! (n + 7))" "store (moved n b) n (b ! (n + 7)) = Inr (moved (Suc n) b)"
    using moved_step [of n b] Suc.prems by (auto simp: fetch_def store_def moved_def)
  have "copy_payload buf_len 0 [n + 7..<m + 7] (moved n b) j = copy_payload buf_len 0 [Suc n + 7..<m + 7] (moved (Suc n) b) (of_nat n)"
    using Suc.prems by (simp only: i) (simp add: Let_def u f)
  also have "\<dots> = Inr (if k = 0 then uint (of_nat n :: u8) + 1 else int m, moved m b)"
    using Suc.prems by (intro Suc.IH) simp_all
  finally show ?case using Suc.prems u by (auto simp: uint_nat)
qed simp

subsection \<open>Lemmas: a whole exchange\<close>

text \<open>An answer: 7 bytes of header, payload, end mark, checksum.\<close>

definition answer :: "u8 list \<Rightarrow> u8 list \<Rightarrow> u8 list" where
  "answer hdr payload = hdr @ payload @ [ETX, xor_sum (hdr @ payload @ [ETX]) OR 0x20]"

definition answer_len :: "u8 list \<Rightarrow> int" where
  "answer_len payload = (if payload = [] then 217 else int (length payload))"

lemma check_answer_answer:
  assumes "length hdr = 7" and "hd hdr \<noteq> 0" and "length payload + 9 \<le> buf_len" and "buf_len \<le> 200"
  shows "check_answer buf_len (answer hdr payload @ rest) (int (length payload + 9)) =
    Inr (answer_len payload, payload @ drop (length payload) (answer hdr payload @ rest))"
proof -
  let ?b = "answer hdr payload @ rest" and ?n = "length payload"
  obtain h hs where h: "hdr = h # hs" "h \<noteq> 0" "length hs = 6" using assms(1,2) by (cases hdr) auto
  have z: "skip_zeros ?b = Inr 0" using h by (simp add: skip_zeros_def answer_def)
  have u: "unat (word_of_int (int (?n + 9) - 1) :: u8) = ?n + 8"
  proof -
    have "(word_of_int (int (?n + 9) - 1) :: u8) = of_nat (?n + 8)" by simp
    also have "unat (of_nat (?n + 8) :: u8) = ?n + 8"
      using assms(3,4) by (simp only: unat_of_nat) (simp add: take_bit_eq_mod)
    finally show ?thesis .
  qed
  have t: "take (?n + 8) ?b = hdr @ payload @ [ETX]" using assms(1) by (simp add: answer_def)
  have c: "epso_checksum ?b (word_of_int (int (?n + 9) - 1)) = Inr (xor_sum (hdr @ payload @ [ETX]) OR 0x20)"
    using assms(1) by (subst epso_checksum_eq) (simp_all only: u t, simp add: answer_def)
  have f: "fetch ?b (?n + 8) = Inr (xor_sum (hdr @ payload @ [ETX]) OR 0x20)"
    using assms(1) by (simp add: answer_def fetch_def nth_append)
  have m: "moved ?n ?b = payload @ drop ?n ?b" "moved 0 ?b = ?b" "?b \<noteq> []"
    using assms(1) by (simp_all add: moved_def answer_def)
  have "copy_payload buf_len 0 [0 + 7..<?n + 7] (moved 0 ?b) (- 40) = Inr (if ?n = 0 then uint (- 40 :: u8) + 1 else int ?n, moved ?n ?b)"
    using assms by (intro copy_payload_moves) (simp_all add: answer_def)
  then have "copy_payload buf_len 0 [7..<?n + 7] ?b (- 40) = Inr (answer_len payload, payload @ drop ?n ?b)"
    by (simp add: m answer_len_def)
  moreover have "nat (int (?n + 9) - 2) = ?n + 7" "nat (int (?n + 9) - 1) = ?n + 8" by simp_all
  ultimately show ?thesis
    using c f m(3) by (simp only: check_answer_def z cbind_simps Let_def drop_0 add_0 of_nat_0 diff_0_right) simp
qed

lemma epso_write_eq:
  "epso_write addr func data l =
     Inr (if lk_write l (length (lk_frames l)) \<noteq> int (length (frame_body addr func data) + 1) then - 11 else 0,
          l\<lparr>lk_frames := lk_frames l @ [frame_body addr func data @ [xor_sum (frame_body addr func data) OR 0x20]]\<rparr>)"
  by (simp add: epso_write_def request_frame_eq)

text \<open>The link after a request was written, and after an exchange.\<close>

definition requested :: "u8 \<Rightarrow> u8 \<Rightarrow> u8 \<Rightarrow> epso_link \<Rightarrow> epso_link" where
  "requested addr func data l =
     l\<lparr>lk_frames := lk_frames l @ [frame_body addr func data @ [xor_sum (frame_body addr func data) OR 0x20]]\<rparr>"

lemma write_read_delivers:
  assumes d: "delivers l (c # cs)" and a: "concat (c # cs) = answer hdr payload" "length hdr = 7" "hd hdr \<noteq> 0"
    and b: "length payload + 9 \<le> length buf" "length buf \<le> 200"
  shows "epso_write_read addr func data buf (length buf) l =
    Some (Inr (answer_len payload, payload @ drop (length payload) (answer hdr payload @ drop (length payload + 9) buf),
      advance (Suc (Suc (length cs))) (Suc (length cs)) (requested addr func data l)))"
proof -
  let ?l = "requested addr func data l"
  have n: "length c + length (concat cs) = length payload + 9"
    using arg_cong [OF a(1), of length] a(2) by (simp add: answer_def)
  have d': "delivers (advance 1 1 ?l) cs" "0 < lk_select ?l (lk_selects ?l)" "lk_read ?l (lk_reads ?l) (length buf) = Some c"
    using d b n by (auto simp: delivers_Cons requested_def delivers_def advance_def)
  have r: "read_rest (length buf) (advance 1 1 ?l) (c @ drop (length c) buf) (int (length c)) =
      Some (Received (advance (Suc (length cs)) (length cs) (advance 1 1 ?l))
        (answer hdr payload @ drop (length payload + 9) buf) (int (length payload + 9)))"
    using read_rest_delivers [OF d'(1) refl, where buf_len = "length buf" and r = "drop (length c) buf" and b = c] n b
    by (simp add: a(1) [symmetric] add.commute [of "length (concat cs)"])
  have m: "memcpy buf 0 c 0 (length c) = Inr (c @ drop (length c) buf)" using n b by (simp add: memcpy_whole)
  show ?thesis
    using d' r m check_answer_answer [OF a(2,3) b]
    by (simp add: epso_write_read_def epso_write_eq requested_def [symmetric] select_call_def read_call_def Let_def
        advance_def)
qed

lemma write_read_silent:
  assumes "lk_select l (lk_selects l) \<le> 0"
  shows "\<exists>ret < 0. epso_write_read addr func data buf buf_len l = Some (Inr (ret, buf, advance 1 0 (requested addr func data l)))"
  using assms by (auto simp: epso_write_read_def epso_write_eq requested_def [symmetric] select_call_def Let_def advance_def)
    (auto simp: requested_def)

text \<open>
  A readable link stays readable when nothing is taken from it: \<open>select\<close> keeps reporting data,
  and \<open>read\<close> of no bytes yields none.
\<close>

definition keeps_ready :: "epso_link \<Rightarrow> bool" where
  "keeps_ready l \<longleftrightarrow> (\<forall>n\<ge>lk_selects l. 0 < lk_select l n) \<and> (\<forall>n\<ge>lk_reads l. lk_read l n 0 = Some [])"

lemma read_rest_hangs:
  assumes "keeps_ready l"
  shows "read_rest 0 l [] 0 = None"
proof (rule ccontr)
  assume "read_rest 0 l [] 0 \<noteq> None"
  then obtain t where t: "while_option is_Reading (rest_step 0) (Reading l [] 0) = Some t" by (auto simp: read_rest_def)
  let ?P = "\<lambda>s. \<exists>l. s = Reading l [] 0 \<and> keeps_ready l"
  have "?P t"
    by (rule while_option_rule [where P = ?P, OF _ t])
       (use assms in \<open>auto simp: keeps_ready_def select_call_def read_call_def Let_def memcpy_def\<close>)
  then show False using while_option_stop [OF t] by auto
qed

lemma write_read_hangs:
  assumes "keeps_ready l"
  shows "epso_write_read addr func data [] 0 l = None"
proof -
  have "read_rest 0 (advance 1 1 (requested addr func data l)) [] 0 = None"
    using assms by (intro read_rest_hangs) (simp add: keeps_ready_def advance_def requested_def)
  then show ?thesis
    using assms by (simp add: epso_write_read_def epso_write_eq requested_def keeps_ready_def select_call_def read_call_def
        Let_def memcpy_def advance_def)
qed

subsection \<open>Lemmas: card and PIN\<close>

text \<open>The last \<open>m\<close> hexadecimal digits of a number.\<close>

fun hex_fixed :: "nat \<Rightarrow> nat \<Rightarrow> string" where
  "hex_fixed 0 n = []"
| "hex_fixed (Suc m) n = hex_fixed m (n div 16) @ [hex_digit True (n mod 16)]"

lemma hex_fixed_length [simp]: "length (hex_fixed m n) = m"
  by (induction m arbitrary: n) simp_all

lemma hex_fixed_digits: "c \<in> set (hex_fixed m n) \<Longrightarrow> digit_value c < 16"
  by (induction m arbitrary: n) (auto simp: digit_value_hex)

lemma hex_fixed_val: "base_val 16 (hex_fixed m n) = int (n mod 16 ^ m)"
proof (induction m arbitrary: n)
  case (Suc m)
  have "base_val 16 (hex_fixed (Suc m) n) = 16 * int (n div 16 mod 16 ^ m) + int (n mod 16)"
    by (simp add: base_val_append hex_fixed_digits digit_value_hex Suc)
  also have "\<dots> = int (n mod 16 ^ Suc m)" by (simp add: mod_mult2_eq)
  finally show ?case .
qed (simp add: base_val_def)

lemma digit_plain: "digit_value c < 36 \<Longrightarrow> \<not> isspace c \<and> c \<noteq> CHR ''-'' \<and> c \<noteq> CHR ''+'' \<and> c \<noteq> CHR 0x00"
  by (auto simp: digit_value_def isspace_def Let_def split: if_splits)

lemma strtoul_digits:
  assumes "s \<noteq> []" and "\<And>c. c \<in> set s \<Longrightarrow> digit_value c < b" and "b \<le> 16" and "base_val b s \<le> max_val"
  shows "strtoul max_val b s = word_of_int (base_val b s)"
proof -
  obtain c cs where s: "s = c # cs" using assms(1) by (cases s) auto
  have c: "\<not> isspace c" "c \<noteq> CHR ''-''" "c \<noteq> CHR ''+''" using digit_plain [of c] assms(2) [of c] assms(3) s by auto
  have "strip_0x b s = s"
    using assms(2,3) by (fastforce simp: strip_0x_def digit_value_def Let_def split: list.splits)
  then show ?thesis using c assms(4) by (simp add: strtoul_def s Let_def)
qed

lemma text_of_bytes_of [simp]: "text_of (bytes_of s) = s"
proof -
  have "char_of (unat (of_char c :: u8)) = c" for c :: char
  proof -
    have "(of_char c :: nat) < 2 ^ 8" using nat_of_char_less_256 [of c] by simp
    then have "unat (of_nat (of_char c) :: u8) = of_char c" by (simp only: unat_of_nat) (simp add: take_bit_nat_eq_self)
    then show ?thesis by (simp add: of_nat_of_char)
  qed
  then show ?thesis by (simp add: text_of_def bytes_of_def map_idI)
qed

lemma bytes_of_eq_0: "(of_char c :: u8) = 0 \<longleftrightarrow> c = CHR 0x00"
  using text_of_bytes_of [of "[c]"] by (auto simp: text_of_def bytes_of_def char_of_def)

lemma cstring_terminated: "(\<And>c. c \<in> set s \<Longrightarrow> c \<noteq> CHR 0x00) \<Longrightarrow> cstring (text_of (bytes_of s @ 0 # r)) = s"
proof -
  assume s: "\<And>c. c \<in> set s \<Longrightarrow> c \<noteq> CHR 0x00"
  have "text_of (bytes_of s @ 0 # r) = s @ CHR 0x00 # text_of r"
    using text_of_bytes_of [of s] by (simp add: text_of_def char_of_def)
  then show ?thesis using s by (simp add: cstring_def takeWhile_append2)
qed

lemma after_card:
  assumes "length hs = 16"
  shows "store (x # hs @ y # r) 17 v = Inr (x # hs @ v # r)" and "fetch (x # hs @ y # z # r') 18 = Inr z"
  using assms by (simp_all add: store_def fetch_def list_update_append nth_append nth_Cons' list_update.simps)

lemma parse_card:
  fixes c :: u64
  assumes "buf = 0x52 # bytes_of (hex_fixed 16 (unat c)) @ sep # 0x3a # rest" and "4 < len"
  shows "parse_answer ulong_max buf len = Inr (Some c, None)"
proof -
  let ?h = "hex_fixed 16 (unat c)"
  have l: "length (bytes_of ?h) = 16" by (simp add: bytes_of_def)
  have v: "strtoul (2 ^ 64 - 1) 16 ?h = c"
  proof -
    have "unat c < 16 ^ 16" using unsigned_less [of c, where 'a = nat] by simp
    then have "base_val 16 ?h = int (unat c)" by (simp only: hex_fixed_val mod_less)
    moreover have "?h \<noteq> []" using hex_fixed_length [of 16 "unat c"] by fastforce
    ultimately show ?thesis
      using strtoul_digits [of ?h 16 "2 ^ 64 - 1"] hex_fixed_digits [of _ 16 "unat c"] unsigned_less [of c, where 'a = int] l
      by (auto simp: bytes_of_def)
  qed
  let ?b = "0x52 # bytes_of ?h @ 0 # 0x3a # rest"
  have s: "store buf 17 0 = Inr ?b"
    unfolding assms(1) by (rule after_card [OF l])
  have "d \<noteq> CHR 0x00" if "d \<in> set ?h" for d
    using digit_plain [of d] hex_fixed_digits [OF that] by simp
  then have "cstring (text_of (drop 1 ?b)) = ?h" by (simp add: cstring_terminated)
  moreover have "fetch ?b 18 = Inr 0x3a" by (rule after_card [OF l])
  moreover have "fetch buf 0 = Inr 0x52" by (simp add: assms(1) fetch_def)
  ultimately show ?thesis using assms(2) s v by (simp add: parse_answer_def parse_pin_def)
qed

lemma bytes_of_colon: "(of_char c :: u8) = 0x3a \<longleftrightarrow> c = CHR '':''"
  using text_of_bytes_of [of "[c]"] by (auto simp: text_of_def bytes_of_def char_of_def of_char_def)

definition is_pin :: "string \<Rightarrow> bool" where
  "is_pin ds \<longleftrightarrow> ds \<noteq> [] \<and> (\<forall>c\<in>set ds. isdigit c)"

lemma is_pin_digits:
  assumes "is_pin ds" and "c \<in> set ds"
  shows "digit_value c < 10" and "(of_char c :: u8) \<notin> {0, 0x3a}"
proof -
  have d: "isdigit c" using assms by (simp add: is_pin_def)
  then show "digit_value c < 10" by (auto simp: isdigit_def digit_value_def Let_def)
  have "c \<noteq> CHR 0x00" "c \<noteq> CHR '':''" using d by (auto simp: isdigit_def)
  then show "(of_char c :: u8) \<notin> {0, 0x3a}" by (simp add: bytes_of_eq_0 bytes_of_colon)
qed

lemma parse_pin_digits:
  assumes "buf = x # bytes_of ds @ 0x3a # rest" and "is_pin ds" and "x \<noteq> 0x52" and "4 < len"
    and "base_val 10 ds \<le> ulong_max"
  shows "parse_answer ulong_max buf len = Inr (None, Some (word_of_int (base_val 10 ds)))"
proof -
  obtain d ds' where ds: "ds = d # ds'" using assms(2) by (cases ds) (auto simp: is_pin_def)
  have b: "\<forall>b\<in>set (bytes_of ds). b \<notin> {0, 0x3a}" using is_pin_digits(2) [OF assms(2)] by (simp add: bytes_of_def)
  have t: "takeWhile (\<lambda>b. b \<notin> {0, 0x3a}) (drop 1 buf) = bytes_of ds"
    using b by (simp add: assms(1) takeWhile_append2)
  have f: "fetch buf 1 = Inr (of_char d)" "fetch buf (1 + length (bytes_of ds)) = Inr 0x3a" "fetch buf 0 = Inr x"
    by (simp_all add: assms(1) ds fetch_def bytes_of_def nth_append)
  have v: "strtoul ulong_max 10 (text_of (bytes_of ds)) = word_of_int (base_val 10 ds)"
    using strtoul_digits [of ds 10 ulong_max] is_pin_digits(1) [OF assms(2)] assms(2,5) by (simp add: is_pin_def)
  have c: "((of_char d :: u8) = 0x3a) = False" "((0x3a :: u8) = 0) = False"
    using is_pin_digits(2) [OF assms(2), of d] ds by simp_all
  have "parse_pin ulong_max buf 1 = Inr (Some (word_of_int (base_val 10 ds)))"
    by (simp only: parse_pin_def f(1,2) t v c if_False cbind_simps Let_def)
  then show ?thesis using assms(3,4) f by (simp add: parse_answer_def)
qed

end
