(* ===== verification/Reader_Roger.thy ===== *)
theory Reader_Roger
  imports Epso Door_Controller
begin

text \<open>
  The driver of EPSO readers (\<open>readers/reader-roger.c\<close>), which a build links in place of the
  OSDP driver: opening, polling and signals, and what they do on the link of \<open>Epso\<close>.

  A reader's private data holds its link and what the polls find in their uninitialised local
  buffer (\<open>rg_stack\<close>). The results are those of \<open>epso_write_read\<close>: \<open>None\<close> is a call that
  never returns. The pauses between commands are left out. Integers are stored low byte first.
\<close>

definition LED_CMD :: u8 where "LED_CMD = 0xe8"
definition LED_RED :: u8 where "LED_RED = 0x4"
definition LED_GREEN :: u8 where "LED_GREEN = 0xa"
definition LED_ORANGE :: u8 where "LED_ORANGE = 0xd"
definition LED_DEFAULT :: u8 where "LED_DEFAULT = 0x0"
definition BEEP_ON :: u8 where "BEEP_ON = 0xB1"
definition BEEP_OFF :: u8 where "BEEP_OFF = 0xB0"
definition BEEP_LEN :: u8 where "BEEP_LEN = 62"
definition BUF_SIZE :: nat where "BUF_SIZE = 128"

record roger_reader =
  rg_serial :: int
  rg_address :: u8
  rg_user_data :: nat
  rg_link :: epso_link
  rg_stack :: "nat \<Rightarrow> u8 list"
  rg_polls :: nat

text \<open>Commands without a buffer for the answer, one after the other.\<close>

fun roger_cmds :: "(u8 \<times> u8) list \<Rightarrow> u8 \<Rightarrow> epso_link \<Rightarrow> epso_link cres option" where
  "roger_cmds [] addr l = Some (Inr l)"
| "roger_cmds ((func, data) # cmds) addr l =
     (case epso_write_read addr func data [] 0 l of
        None \<Rightarrow> None
      | Some (Inl e) \<Rightarrow> Some (Inl e)
      | Some (Inr (_, _, l)) \<Rightarrow> roger_cmds cmds addr l)"

text \<open>\<open>init_reader\<close>: \<open>readerSerial\<close> is the result of \<open>init_tty\<close>.\<close>

definition roger_init_reader ::
  "int \<Rightarrow> u8 \<Rightarrow> nat \<Rightarrow> epso_link \<Rightarrow> (nat \<Rightarrow> u8 list) \<Rightarrow> roger_reader option cres option" where
  "roger_init_reader readerSerial readerAddress readerUserData l stack =
     (if readerSerial < 0 then Some (Inr None)
      else map_option (\<lambda>r. cbind (r :: epso_link cres) (\<lambda>l.
               Inr (Some \<lparr>rg_serial = readerSerial, rg_address = readerAddress, rg_user_data = readerUserData,
                          rg_link = l, rg_stack = stack, rg_polls = 0\<rparr>)))
             (roger_cmds [(BEEP_ON, BEEP_LEN), (LED_CMD, LED_DEFAULT), (BEEP_OFF, BEEP_LEN)] readerAddress l))"

subsection \<open>Polling\<close>

text \<open>The bytes of a card number in memory, and the text of a PIN.\<close>

definition card_bytes :: "u64 \<Rightarrow> u8 list" where
  "card_bytes c =
     take (if c AND 0x00ffffff00000000 \<noteq> 0 then 7 else 4) (map (\<lambda>k. ucast (drop_bit (8 * k) c)) [0..<8])"

definition pin_bytes :: "u64 \<Rightarrow> u8 list" where
  "pin_bytes p = bytes_of (dec_string (sint p))"

definition roger_get_reader_data :: "int \<Rightarrow> roger_reader callback \<Rightarrow> nat \<Rightarrow> int \<Rightarrow> roger_reader sys \<Rightarrow> roger_reader sys cres option" where
  "roger_get_reader_data ulong_max cb h input_timeout s =
     (let r = readers s h
      in case readCardPin ulong_max (rg_address r) (rg_stack r (rg_polls r)) BUF_SIZE (rg_link r) of
           None \<Rightarrow> None
         | Some res \<Rightarrow> Some (cbind res (\<lambda>((cardNum, pinNum), l).
             let s = upd_reader h (r\<lparr>rg_link := l, rg_polls := Suc (rg_polls r)\<rparr>) s
             in case (cardNum, pinNum) of
                  (Some c, _) \<Rightarrow> cb (card_bytes c) DATA_IS_CARD DATA_OK h (rg_user_data r) s
                | (None, Some p) \<Rightarrow> cb (pin_bytes p) DATA_IS_PIN DATA_OK h (rg_user_data r) s
                | (None, None) \<Rightarrow> Inr s)))"

definition roger_clear_reader_data :: "roger_reader \<Rightarrow> roger_reader" where
  "roger_clear_reader_data r = r"

subsection \<open>Signals\<close>

text \<open>The commands of a signal; all values with a case are below 128, so the sign of \<open>char\<close> does not matter.\<close>

definition roger_signal_cmds :: "u8 \<Rightarrow> (u8 \<times> u8) list" where
  "roger_signal_cmds signal =
     (if signal = SIGNAL_OK then [(LED_CMD, LED_GREEN), (LED_CMD, LED_DEFAULT)]
      else if signal = SIGNAL_DOOR_OPEN then [(LED_CMD, LED_GREEN)]
      else if signal = SIGNAL_DOOR_LOCK then [(LED_CMD, LED_DEFAULT)]
      else if signal = SIGNAL_ERR \<or> signal = SIGNAL_ERR_AUTH \<or> signal = SIGNAL_ERR_COMM
      then [(LED_CMD, LED_RED), (BEEP_ON, BEEP_LEN), (BEEP_OFF, BEEP_LEN), (LED_CMD, LED_DEFAULT)]
      else if signal = SIGNAL_ERR_USAGE then [(BEEP_ON, BEEP_LEN), (BEEP_OFF, BEEP_LEN)]
      else if signal = SIGNAL_PIN then [(LED_CMD, LED_ORANGE)]
      else [])"

definition roger_reader_signal :: "u8 \<Rightarrow> roger_reader \<Rightarrow> roger_reader cres option" where
  "roger_reader_signal signal r =
     map_option (\<lambda>res. cbind (res :: epso_link cres) (\<lambda>l. Inr (r\<lparr>rg_link := l\<rparr>)))
       (roger_cmds (roger_signal_cmds signal) (rg_address r) (rg_link r))"

subsection \<open>Lemmas\<close>

text \<open>An exchange that delivers a payload leaves it, terminated, at the start of the buffer.\<close>

lemma readCardPin_delivers:
  assumes d: "delivers l cs" "cs \<noteq> []" and a: "concat cs = answer hdr payload" "length hdr = 7" "hd hdr \<noteq> 0"
    and b: "length payload + 9 \<le> length buf" "length buf \<le> 200" and p: "payload \<noteq> []"
  shows "\<exists>rest. readCardPin ulong_max addr buf (length buf) l =
    Some (cbind (parse_answer ulong_max (payload @ 0 # rest) (int (length payload))) (\<lambda>res.
      Inr (res, advance (Suc (length cs)) (length cs) (requested addr 0xA5 0x33 l))))"
proof -
  obtain c cs' where cs: "cs = c # cs'" using d(2) by (cases cs) auto
  let ?n = "length payload" and ?all = "answer hdr payload @ drop (length payload + 9) buf"
  have "length (answer hdr payload) = ?n + 9" using a(2) by (simp add: answer_def)
  then have "drop ?n ?all \<noteq> []" by simp
  then obtain x xs where x: "drop ?n ?all = x # xs" by (cases "drop ?n ?all") auto
  have "store_at (payload @ x # xs) (answer_len payload) 0 = Inr (payload @ 0 # xs)"
    using p by (simp add: store_at_def store_def answer_len_def)
  then have "readCardPin ulong_max addr buf (length buf) l =
      Some (cbind (parse_answer ulong_max (payload @ 0 # xs) (int ?n)) (\<lambda>res.
        Inr (res, advance (Suc (length cs)) (length cs) (requested addr 0xA5 0x33 l))))"
    using write_read_delivers [OF d(1)[unfolded cs] a(1)[unfolded cs] a(2,3) b, of addr "0xA5" "0x33", unfolded x] p
    by (simp add: readCardPin_def cs answer_len_def)
  then show ?thesis by blast
qed

lemma readCardPin_out_of_bounds:
  assumes "epso_write_read addr 0xA5 0x33 buf n l = Some (Inr (len, buf', l'))" and "len < 0 \<or> length buf' \<le> nat len"
  shows "readCardPin ulong_max addr buf n l = Some (Inl Out_of_bounds)"
  using assms by (auto simp: readCardPin_def store_at_def store_def)

text \<open>The reader after a poll.\<close>

definition polled :: "nat \<Rightarrow> roger_reader \<Rightarrow> roger_reader" where
  "polled n r = r\<lparr>rg_link := advance (Suc n) n (requested (rg_address r) 0xA5 0x33 (rg_link r)), rg_polls := Suc (rg_polls r)\<rparr>"

lemma roger_poll_delivers:
  assumes "delivers (rg_link (readers s h)) cs" "cs \<noteq> []" and "concat cs = answer hdr payload" "length hdr = 7" "hd hdr \<noteq> 0"
    and "length (rg_stack (readers s h) (rg_polls (readers s h))) = 128" "length payload \<le> 119" "payload \<noteq> []"
    and "\<And>rest. parse_answer ulong_max (payload @ 0 # rest) (int (length payload)) = Inr res"
  shows "roger_get_reader_data ulong_max cb h tmo s =
    Some (let r = readers s h; s = upd_reader h (polled (length cs) r) s
      in case res of
           (Some c, _) \<Rightarrow> cb (card_bytes c) DATA_IS_CARD DATA_OK h (rg_user_data r) s
         | (None, Some p) \<Rightarrow> cb (pin_bytes p) DATA_IS_PIN DATA_OK h (rg_user_data r) s
         | (None, None) \<Rightarrow> Inr s)"
proof -
  let ?r = "readers s h"
  obtain rest where "readCardPin ulong_max (rg_address ?r) (rg_stack ?r (rg_polls ?r)) 128 (rg_link ?r) =
      Some (cbind (parse_answer ulong_max (payload @ 0 # rest) (int (length payload))) (\<lambda>res.
        Inr (res, advance (Suc (length cs)) (length cs) (requested (rg_address ?r) 0xA5 0x33 (rg_link ?r)))))"
    using readCardPin_delivers [OF assms(1-5), of "rg_stack ?r (rg_polls ?r)" ulong_max "rg_address ?r"] assms(6-8) by auto
  then show ?thesis
    by (cases res) (simp add: assms(9) roger_get_reader_data_def BUF_SIZE_def polled_def Let_def)
qed

lemma roger_cmds_silent:
  "(\<And>n. lk_select l n \<le> 0) \<Longrightarrow> \<exists>l'. roger_cmds cmds addr l = Some (Inr l')"
proof (induction cmds addr l rule: roger_cmds.induct)
  case (2 func data cmds addr l)
  obtain ret where r: "epso_write_read addr func data [] 0 l = Some (Inr (ret, [], advance 1 0 (requested addr func data l)))"
    using write_read_silent [of l] 2(2) by blast
  then have "\<exists>l'. roger_cmds cmds addr (advance 1 0 (requested addr func data l)) = Some (Inr l')"
    using 2(2) by (intro "2.IH" [OF r]) (auto simp: advance_def requested_def)
  then show ?case by (simp add: r)
qed simp

lemma pin_value:
  assumes "base_val 10 ds < 2 ^ 63" and "0 \<le> base_val 10 ds"
  shows "pin_bytes (word_of_int (base_val 10 ds)) = bytes_of (num_string 10 (nat (base_val 10 ds)))"
proof -
  have "sint (word_of_int (base_val 10 ds) :: u64) = base_val 10 ds"
    using assms by (simp add: int_word_sint)
  then show ?thesis using assms(2) by (simp add: pin_bytes_def dec_string_def)
qed

lemma base_val_nonneg: "0 \<le> base_val b ds"
proof -
  have "0 \<le> n \<Longrightarrow> 0 \<le> fold (\<lambda>c n. int b * n + int (digit_value c)) cs n" for n cs
    by (induction cs arbitrary: n) simp_all
  then show ?thesis by (simp add: base_val_def)
qed

subsection \<open>Properties\<close>

text \<open>
  Property C40. The frame of a request to a reader with a two digit address, and what becomes of a
  longer address: the start mark has a fixed place and overwrites the second digit of the
  function, so that switching the beeper on and off are the same frame.
\<close>

theorem request_frames:
  assumes "func \<noteq> 0xFF"
  shows "if addr < 100
    then \<exists>ret. epso_write addr func data l = Inr (ret, l\<lparr>lk_frames := lk_frames l @
      [let body = SOH # bytes_of (''S'' @ dec2 (unat addr) @ hex2 (unat func)) @ STX # bytes_of (num_string 10 (unat data)) @ [ETX]
       in body @ [xor_sum body OR 0x20]]\<rparr>)
    else epso_write addr BEEP_ON data l = epso_write addr BEEP_OFF data l"
  using assms by (auto simp: epso_write_eq frame_body_def data_bytes_def bytes_of_def Let_def BEEP_ON_def BEEP_OFF_def)

definition idle_link :: epso_link where
  "idle_link =
     \<lparr>lk_select = (\<lambda>n. 0), lk_read = (\<lambda>n k. None), lk_write = (\<lambda>n. 0), lk_selects = 0, lk_reads = 0, lk_frames = []\<rparr>"

theorem request_frames_witness:
  "epso_write 100 BEEP_ON BEEP_LEN idle_link = epso_write 100 BEEP_OFF BEEP_LEN idle_link"
  using request_frames [of "0xA5" 100 BEEP_LEN idle_link] by simp


text \<open>A link that hands out given chunks and is silent afterwards, and a reader on it.\<close>

definition link_of :: "u8 list list \<Rightarrow> epso_link" where
  "link_of cs =
     \<lparr>lk_select = (\<lambda>n. if n < length cs then 1 else 0),
      lk_read = (\<lambda>n k. if n < length cs \<and> length (cs ! n) \<le> k then Some (cs ! n) else None),
      lk_write = (\<lambda>n. 0), lk_selects = 0, lk_reads = 0, lk_frames = []\<rparr>"

lemma link_of_delivers: "delivers (link_of cs) cs"
  by (simp add: delivers_def link_of_def)

definition roger_on :: "u8 list list \<Rightarrow> roger_reader sys" where
  "roger_on cs =
     \<lparr>doors = [],
      readers = (\<lambda>_. \<lparr>rg_serial = 3, rg_address = 0, rg_user_data = 0, rg_link = link_of cs, rg_stack = (\<lambda>_. replicate 128 0), rg_polls = 0\<rparr>),
      trace = []\<rparr>"

definition record_data :: "roger_reader callback" where
  "record_data data ty mode h ud s = Inr (emit (map (Signal h) data) s)"


text \<open>
  Property C37. A poll that is answered with a PIN hands the controller the decimal text of its
  value: leading zeros of the PIN are lost.
\<close>

theorem pin_poll_delivers:
  assumes "delivers (rg_link (readers s h)) cs" and "cs \<noteq> []"
    and "concat cs = answer hdr (x # bytes_of ds @ 0x3a # rest)" and "length hdr = 7" and "hd hdr \<noteq> 0"
    and "length (rg_stack (readers s h) (rg_polls (readers s h))) = 128" and "length ds + length rest \<in> {3..117}"
    and "is_pin ds" and "x \<noteq> 0x52" and "base_val 10 ds \<le> ulong_max" and "base_val 10 ds < 2 ^ 63"
  shows "roger_get_reader_data ulong_max cb h tmo s =
    Some (cb (bytes_of (num_string 10 (nat (base_val 10 ds)))) DATA_IS_PIN DATA_OK h (rg_user_data (readers s h))
      (upd_reader h (polled (length cs) (readers s h)) s))"
proof -
  let ?p = "x # bytes_of ds @ 0x3a # rest"
  have "length ?p \<le> 119" "4 < int (length ?p)" using assms(7) by (simp_all add: bytes_of_def)
  moreover have "parse_answer ulong_max (?p @ 0 # r) (int (length ?p)) = Inr (None, Some (word_of_int (base_val 10 ds)))" for r
    using calculation(2) assms(8-10) by (intro parse_pin_digits) simp_all
  ultimately show ?thesis
    using roger_poll_delivers [OF assms(1-6), of ulong_max "(None, Some (word_of_int (base_val 10 ds)))" cb tmo]
      pin_value [OF assms(11) base_val_nonneg] by (simp add: Let_def)
qed

theorem pin_poll_delivers_witness:
  "\<exists>t. roger_get_reader_data 0xffffffff record_data 0 0
      (roger_on [replicate 7 1 @ [0x50, 0x30, 0x30], [0x34, 0x32, 0x3a, 0x3a, ETX,
         xor_sum (replicate 7 1 @ [0x50, 0x30, 0x30, 0x34, 0x32, 0x3a, 0x3a, ETX]) OR 0x20]]) = Some (Inr t) \<and>
    rev (trace t) = map (Signal 0) [0x34, 0x32]"
proof -
  let ?cs = "[replicate 7 1 @ [0x50, 0x30, 0x30], [0x34, 0x32, 0x3a, 0x3a, ETX,
         xor_sum (replicate 7 1 @ [0x50, 0x30, 0x30, 0x34, 0x32, 0x3a, 0x3a, ETX]) OR 0x20]]"
  have d: "bytes_of ''0042'' = [0x30, 0x30, 0x34, 0x32]" by (simp add: bytes_of_def of_char_def)
  have "num_string 10 42 = ''42''" by (simp add: num_string_small hex_digit_def char_of_def bit_iff_odd)
  then have v: "base_val 10 ''0042'' = 42" "bytes_of (num_string 10 42) = [0x34, 0x32]"
    by (simp_all add: base_val_def digit_value_def bytes_of_def of_char_def)
  show ?thesis
    using pin_poll_delivers [of "roger_on ?cs" 0 ?cs "replicate 7 1" "0x50" "''0042''" "[0x3a]" "0xffffffff" record_data 0]
    by (simp add: roger_on_def link_of_delivers record_data_def emit_def upd_reader_def d v answer_def is_pin_def isdigit_def)
qed

text \<open>
  Property C38. A poll that is not answered, or answered without a payload, writes outside the
  local buffer: the negative result of the exchange, or 217, is used as an index.
\<close>

theorem unanswered_poll_overruns:
  assumes "lk_select (rg_link (readers s h)) (lk_selects (rg_link (readers s h))) \<le> 0 \<or>
      cs \<noteq> [] \<and> delivers (rg_link (readers s h)) cs \<and> concat cs = answer hdr [] \<and> length hdr = 7 \<and> hd hdr \<noteq> 0"
    and "length (rg_stack (readers s h) (rg_polls (readers s h))) = 128"
  shows "roger_get_reader_data ulong_max cb h tmo s = Some (Inl Out_of_bounds)"
proof -
  let ?r = "readers s h"
  let ?x = "epso_write_read (rg_address ?r) 0xA5 0x33 (rg_stack ?r (rg_polls ?r)) 128 (rg_link ?r)"
  have "\<exists>len buf l. ?x = Some (Inr (len, buf, l)) \<and> (len < 0 \<or> length buf \<le> nat len)"
    using assms(1)
  proof (elim disjE conjE)
    assume "lk_select (rg_link ?r) (lk_selects (rg_link ?r)) \<le> 0"
    from write_read_silent [OF this] show ?thesis by blast
  next
    assume a: "cs \<noteq> []" "delivers (rg_link ?r) cs" "concat cs = answer hdr []" "length hdr = 7" "hd hdr \<noteq> 0"
    obtain c cs' where cs: "cs = c # cs'" using a(1) by (cases cs) auto
    show ?thesis
      using write_read_delivers [OF a(2)[unfolded cs] a(3)[unfolded cs] a(4,5), of "rg_stack ?r (rg_polls ?r)"] assms(2) a(4)
      by (simp add: answer_len_def answer_def)
  qed
  then show ?thesis
    using readCardPin_out_of_bounds by (fastforce simp: roger_get_reader_data_def BUF_SIZE_def Let_def)
qed

theorem unanswered_poll_overruns_witness:
  "roger_get_reader_data 0xffffffff record_data 0 0 (roger_on []) = Some (Inl Out_of_bounds)"
  by (rule unanswered_poll_overruns) (simp_all add: roger_on_def link_of_def)

text \<open>
  Property C39. A signal waits for the answers to its commands without a buffer to read them into:
  when the reader answers, the call never returns; it returns when the reader is silent.
\<close>

theorem answered_signal_hangs:
  assumes "roger_signal_cmds signal \<noteq> []"
  shows "(keeps_ready (rg_link r) \<longrightarrow> roger_reader_signal signal r = None) \<and>
    ((\<forall>n. lk_select (rg_link r) n \<le> 0) \<longrightarrow> (\<exists>r'. roger_reader_signal signal r = Some (Inr r')))"
proof (intro conjI impI)
  obtain f d cmds where c: "roger_signal_cmds signal = (f, d) # cmds" using assms by (cases "roger_signal_cmds signal") auto
  assume "keeps_ready (rg_link r)"
  then show "roger_reader_signal signal r = None" by (simp add: roger_reader_signal_def c write_read_hangs)
next
  assume "\<forall>n. lk_select (rg_link r) n \<le> 0"
  then show "\<exists>r'. roger_reader_signal signal r = Some (Inr r')"
    using roger_cmds_silent [of "rg_link r" "roger_signal_cmds signal" "rg_address r"] by (auto simp: roger_reader_signal_def)
qed

theorem answered_signal_hangs_witness:
  "roger_reader_signal SIGNAL_DOOR_OPEN
     \<lparr>rg_serial = 3, rg_address = 0, rg_user_data = 0,
      rg_link = \<lparr>lk_select = (\<lambda>n. 1), lk_read = (\<lambda>n k. Some (replicate k 1)), lk_write = (\<lambda>n. 12), lk_selects = 0, lk_reads = 0, lk_frames = []\<rparr>,
      rg_stack = (\<lambda>_. []), rg_polls = 0\<rparr> = None"
  using answered_signal_hangs [of SIGNAL_DOOR_OPEN]
  by (simp add: keeps_ready_def roger_signal_cmds_def)

end
