(* ===== verification/Osdp_Tools.thy ===== *)
theory Osdp_Tools
  imports Osdp C_Text
begin

text \<open>
  The dump of a packet in the log (\<open>packet_dump\<close>) and the two command line programs over the
  packet functions: \<open>tools/osdp-set-address.c\<close>, which gives a reader its address, and a pass of
  the loop of \<open>tools/osdp-reader-test.c\<close>. What a program prints is a list of lines; lines that
  only name file descriptors are left out, as are addresses in memory and the pauses.
\<close>

subsection \<open>\<open>packet_dump\<close>\<close>

text \<open>\<open>%04x\<close> and \<open>%02x\<close>.\<close>

definition zero_hex :: "nat \<Rightarrow> nat \<Rightarrow> string" where
  "zero_hex w n = replicate (w - length (num_string 16 n)) CHR ''0'' @ num_string 16 n"

definition hex_byte_text :: "u8 \<Rightarrow> string" where
  "hex_byte_text b = zero_hex 2 (unat b) @ '' ''"

text \<open>
  The loop over \<open>i\<close>: lines logged so far, the 32 byte buffer, the position. Every eight bytes
  the line is logged and a new one begun; a line that does not fit ends the dump.
\<close>

definition put_hex :: "string \<Rightarrow> string \<times> nat \<Rightarrow> string \<times> nat" where
  "put_hex text = (\<lambda>(buf, bufPos). snprintf_at 32 buf bufPos text)"

fun dump_loop :: "osdp_packet \<Rightarrow> nat \<Rightarrow> nat list \<Rightarrow> string list \<Rightarrow> string \<times> nat \<Rightarrow> string list cres" where
  "dump_loop packet start_offset [] log (buf, bufPos) = Inr (log @ [buf])"
| "dump_loop packet start_offset (i # is) log (buf, bufPos) =
     (let (log, line) =
        (if (i - start_offset) mod 8 = 0
         then (if bufPos \<noteq> 0 then log @ [buf] else log, put_hex (zero_hex 4 i @ '': '') ([], 0))
         else (log, (buf, bufPos)))
      in cbind (fetch (pkt_data packet) i) (\<lambda>b.
         let (buf, bufPos) = put_hex (hex_byte_text b) line
         in if bufPos \<ge> 32 then Inr (log @ [''Error in packet_dump''])
            else dump_loop packet start_offset is log (buf, bufPos)))"

definition packet_dump :: "osdp_packet \<Rightarrow> nat \<Rightarrow> nat \<Rightarrow> string list cres" where
  "packet_dump packet start_offset end_offset =
     (let len = pkt_len packet;
          log = (if start_offset = 0 \<and> end_offset = 0
                 then [''Packet at len='' @ dec_string (sint len) @ '' =0x'' @ zero_hex 4 (unat len)] else [])
      in if of_nat start_offset \<ge> len - of_nat end_offset then Inr (log @ [''Data too short for dump''])
         else dump_loop packet start_offset [start_offset..<unat (len - of_nat end_offset)] log ([], 0))"

subsection \<open>Setting the address of a reader\<close>

text \<open>
  \<open>answer\<close>, \<open>res\<close>, \<open>packet\<close> and \<open>stack\<close> are what the local variables hold, \<open>rd\<close> the result of
  \<open>read\<close>. The result is the bytes sent and the lines printed.
\<close>

definition set_address ::
  "osdp_packet \<Rightarrow> osdp_packet \<Rightarrow> osdp_response \<Rightarrow> u8 list \<Rightarrow> string list \<Rightarrow> int \<Rightarrow> read_result \<Rightarrow> (int \<times> u8 list \<times> string list) cres" where
  "set_address packet answer res stack args wr rd =
     (if length args < 2 then Inr (1, [], [''Usage: <serial> <address>''])
      else let newAddress = (word_of_int (strtoll (args ! 1)) :: u32)
           in cbind (comset stack packet 0x7f (ucast newAddress) 9600) (\<lambda>packet.
              cbind (send_packet packet wr) (\<lambda>(sent, _).
              let out = [''Address set to '' @ zero_hex 2 (unat newAddress)];
                  (ok, answer) = recv_packet answer rd
              in if ok
                 then cbind (process_packet answer res) (\<lambda>(_, answer, res).
                      cbind (packet_dump answer 0 0) (\<lambda>log.
                      Inr (0, sent, out @ log @ [''Response received OK''])))
                 else Inr (0, sent, out @ [''Received bad packet'']))))"

subsection \<open>Testing a reader\<close>

definition key_line :: "u8 \<Rightarrow> string" where
  "key_line k =
     (if k = 0x7f then ''clear pin'' else if k = 0x0d then ''pin accepted''
      else ''add '' @ [char_of (unat k)] @ '' to pin'')"

definition ack_line :: string where "ack_line = ''ACK - all OK, but no new data from reader''"

text \<open>The case of \<open>osdp_KPD\<close> has no \<open>break\<close>.\<close>

definition response_lines :: "osdp_response \<Rightarrow> string list cres" where
  "response_lines res =
     (let n = unat (rsp_payloadlen res)
      in if rsp_response res = osdp_RAW
         then cbind (memcpy (replicate n 0) 0 (rsp_payload res) 0 n) (\<lambda>bs.
              Inr [''enter card: 0x'' @ concat (map (\<lambda>b. zero_hex 2 (unat b)) bs)])
         else if rsp_response res = osdp_KPD
         then cbind (memcpy (replicate n 0) 0 (rsp_payload res) 0 n) (\<lambda>bs. Inr (map key_line bs @ [ack_line]))
         else if rsp_response res = osdp_ACK then Inr [ack_line]
         else if rsp_response res = osdp_NACK then Inr [''Received NACK from reader'']
         else Inr [])"

definition test_pass ::
  "int \<Rightarrow> read_result \<Rightarrow> osdp_packet \<times> osdp_packet \<times> osdp_response \<Rightarrow>
     (u8 list \<times> string list \<times> osdp_packet \<times> osdp_packet \<times> osdp_response) cres" where
  "test_pass wr rd = (\<lambda>(packet, answer, res).
     cbind (fill_packet packet 0x7f osdp_POLL []) (\<lambda>packet.
     cbind (send_packet packet wr) (\<lambda>(sent, _).
     let (ok, answer) = recv_packet answer rd
     in if ok
        then cbind (process_packet answer res) (\<lambda>(_, answer, res).
             cbind (response_lines res) (\<lambda>out. Inr (sent, out, packet, answer, res)))
        else Inr (sent, [''Received bad packet''], packet, answer, res))))"

subsection \<open>Lemmas\<close>

lemma num_string_hex_length:
  "n < 16 \<Longrightarrow> length (num_string 16 n) = 1" "n < 256 \<Longrightarrow> length (num_string 16 n) \<le> 2"
  "n < 65536 \<Longrightarrow> length (num_string 16 n) \<le> 4"
proof -
  show 1: "n < 16 \<Longrightarrow> length (num_string 16 n) = 1" for n by (simp add: num_string.simps [of 16 n])
  show 2: "n < 256 \<Longrightarrow> length (num_string 16 n) \<le> 2" for n
    using 1 [of "n div 16"] by (simp add: num_string.simps [of 16 n] less_mult_imp_div_less)
  have 3: "n < 4096 \<Longrightarrow> length (num_string 16 n) \<le> 3" for n
    using 2 [of "n div 16"] by (simp add: num_string.simps [of 16 n] less_mult_imp_div_less)
  show "n < 65536 \<Longrightarrow> length (num_string 16 n) \<le> 4"
    using 3 [of "n div 16"] by (simp add: num_string.simps [of 16 n] less_mult_imp_div_less)
qed

lemma zero_hex_length: "length (num_string 16 n) \<le> w \<Longrightarrow> length (zero_hex w n) = w"
  by (simp add: zero_hex_def)

lemma hex_byte_text_length [simp]: "length (hex_byte_text b) = 3"
  using num_string_hex_length(2) [of "unat b"] unsigned_less [of b, where 'a = nat]
  by (simp add: hex_byte_text_def zero_hex_length)

text \<open>The lines without the limits of the buffer.\<close>

fun dump_lines :: "u8 list \<Rightarrow> nat \<Rightarrow> nat list \<Rightarrow> string \<Rightarrow> string list" where
  "dump_lines data start [] cur = [cur]"
| "dump_lines data start (i # is) cur =
     (if (i - start) mod 8 = 0
      then (if cur \<noteq> [] then [cur] else []) @ dump_lines data start is (zero_hex 4 i @ '': '' @ hex_byte_text (data ! i))
      else dump_lines data start is (cur @ hex_byte_text (data ! i)))"

definition line_length :: "nat \<Rightarrow> nat \<Rightarrow> nat" where
  "line_length start i = (if i = start then 0 else 9 + 3 * ((i - start - 1) mod 8))"

lemma line_length_Suc:
  assumes "start \<le> i"
  shows "line_length start (Suc i) = (if (i - start) mod 8 = 0 then 9 else line_length start i + 3)"
proof (cases "i = start")
  case False
  then obtain k where k: "i - start = Suc k" using assms by (metis Suc_diff_Suc diff_diff_cancel le_neq_implies_less)
  then have "i - start - 1 = k" "Suc i - start - 1 = Suc k" "Suc i \<noteq> start" "i \<noteq> start" using assms by auto
  then show ?thesis unfolding line_length_def k by (simp add: mod_Suc)
qed (simp add: line_length_def)

lemma put_hex_fits: "length buf + length text < 32 \<Longrightarrow> put_hex text (buf, length buf) = (buf @ text, length (buf @ text))"
  by (simp add: put_hex_def snprintf_at_def)

lemma dump_loop_lines:
  assumes "n \<le> length (pkt_data p)" and "n < 65536" and "start \<le> i" and "length cur = line_length start i"
  shows "dump_loop p start [i..<n] log (cur, length cur) = Inr (log @ dump_lines (pkt_data p) start [i..<n] cur)"
  using assms(3,4)
proof (induction "n - i" arbitrary: i cur log)
  case (Suc k)
  have i: "[i..<n] = i # [Suc i..<n]" "i < n" using Suc.hyps(2) by (simp_all add: upt_conv_Cons)
  let ?b = "pkt_data p ! i"
  have f: "fetch (pkt_data p) i = Inr ?b" using i assms(1) by (simp add: fetch_def)
  have z: "length (zero_hex 4 i) = 4"
    using num_string_hex_length(3) [of i] i assms(2) by (simp add: zero_hex_length)
  have IH: "length c = line_length start (Suc i) \<Longrightarrow>
      dump_loop p start [Suc i..<n] l (c, length c) = Inr (l @ dump_lines (pkt_data p) start [Suc i..<n] c)" for c l
    using Suc.hyps Suc.prems by (intro Suc.hyps(1)) auto
  have w: "line_length start (Suc i) < 32" using Suc.prems(1) mod_less_divisor [of 8 "i - start"] by (auto simp: line_length_def)
  show ?case
  proof (cases "(i - start) mod 8 = 0")
    case True
    have "put_hex (zero_hex 4 i @ '': '') ([], 0) = (zero_hex 4 i @ '': '', length (zero_hex 4 i @ '': ''))"
      using put_hex_fits [of "[]" "zero_hex 4 i @ '': ''"] z by simp
    moreover have "put_hex (hex_byte_text ?b) (zero_hex 4 i @ '': '', length (zero_hex 4 i @ '': '')) =
        ((zero_hex 4 i @ '': '') @ hex_byte_text ?b, length ((zero_hex 4 i @ '': '') @ hex_byte_text ?b))"
      using z by (intro put_hex_fits) simp
    ultimately show ?thesis
      using True f z IH [of "(zero_hex 4 i @ '': '') @ hex_byte_text ?b"] Suc.prems(1)
      by (simp add: i(1) line_length_Suc Let_def)
  next
    case False
    then have "length cur + 3 < 32" using w Suc.prems by (simp add: line_length_Suc)
    then have "put_hex (hex_byte_text ?b) (cur, length cur) = (cur @ hex_byte_text ?b, length (cur @ hex_byte_text ?b))"
      by (intro put_hex_fits) simp
    then show ?thesis
      using False f IH [of "cur @ hex_byte_text ?b"] Suc.prems w by (simp add: i(1) line_length_Suc Let_def)
  qed
qed (simp add: upt_rec)

text \<open>A packet that fits its array is dumped line by line, none truncated or given up.\<close>

lemma packet_dump_lines:
  assumes "length (pkt_data p) = PACKETLEN" and "pkt_len p \<noteq> 0" and "unat (pkt_len p) \<le> PACKETLEN"
  shows "packet_dump p 0 0 =
    Inr ((''Packet at len='' @ dec_string (sint (pkt_len p)) @ '' =0x'' @ zero_hex 4 (unat (pkt_len p))) #
      dump_lines (pkt_data p) 0 [0..<unat (pkt_len p)] [])"
  using dump_loop_lines [of "unat (pkt_len p)" p 0 0 "[]"] assms
  by (simp add: packet_dump_def PACKETLEN_def Let_def line_length_def)

text \<open>The answer with keys is also reported as one without data.\<close>

lemma keys_reported_as_ack:
  "rsp_response res = osdp_KPD \<Longrightarrow> unat (rsp_payloadlen res) \<le> length (rsp_payload res) \<Longrightarrow>
     response_lines res = Inr (map key_line (take (unat (rsp_payloadlen res)) (rsp_payload res)) @ [ack_line])"
  by (simp add: response_lines_def memcpy_def Let_def)

end
