(* ===== verification/Serial_Port.thy ===== *)
theory Serial_Port
  imports AC_Prelude
begin

text \<open>
  Opening the serial ports of the readers: \<open>portsetup\<close> (\<open>readers/osdp/osdp.c\<close>) and \<open>init_tty\<close>
  (\<open>readers/epso/epso.c\<close>), as the settings they give the terminal.

  The flags are those of the Linux headers. The descriptor \<open>open\<close> returns, the settings
  \<open>tcgetattr\<close> reports and the result of the \<open>ioctl\<close> are parameters. A setup is the RS485 flags
  handed to the driver, if any, and the settings handed to \<open>tcsetattr\<close>.
\<close>

type_synonym flags = u32

definition PARENB :: flags where "PARENB = 0x100"
definition CSTOPB :: flags where "CSTOPB = 0x40"
definition CSIZE :: flags where "CSIZE = 0x30"
definition CS8 :: flags where "CS8 = 0x30"
definition CREAD :: flags where "CREAD = 0x80"
definition CLOCAL :: flags where "CLOCAL = 0x800"
definition CBAUD :: flags where "CBAUD = 0x100f"
definition B9600 :: flags where "B9600 = 0xd"
definition ISIG :: flags where "ISIG = 0x1"
definition ICANON :: flags where "ICANON = 0x2"
definition ECHO :: flags where "ECHO = 0x8"
definition ECHOE :: flags where "ECHOE = 0x10"
definition ECHONL :: flags where "ECHONL = 0x40"
definition IEXTEN :: flags where "IEXTEN = 0x8000"
definition OPOST :: flags where "OPOST = 0x1"
definition IGNBRK :: flags where "IGNBRK = 0x1"
definition IGNPAR :: flags where "IGNPAR = 0x4"
definition raw_iflags :: flags where "raw_iflags = 0x5eb"
definition SER_RS485_ENABLED :: flags where "SER_RS485_ENABLED = 0x1"
definition SER_RS485_RTS_ON_SEND :: flags where "SER_RS485_RTS_ON_SEND = 0x2"
definition SER_RS485_RTS_AFTER_SEND :: flags where "SER_RS485_RTS_AFTER_SEND = 0x4"

record termios =
  c_iflag :: flags
  c_oflag :: flags
  c_cflag :: flags
  c_lflag :: flags
  c_vmin :: u8
  c_vtime :: u8

text \<open>\<open>cfsetispeed\<close> and \<open>cfsetospeed\<close> set the same bits; \<open>cfmakeraw\<close> as its manual page has it.\<close>

definition cfsetspeed :: "flags \<Rightarrow> termios \<Rightarrow> termios" where
  "cfsetspeed speed t = t\<lparr>c_cflag := c_cflag t AND NOT CBAUD OR speed\<rparr>"

definition cfmakeraw :: "termios \<Rightarrow> termios" where
  "cfmakeraw t =
     t\<lparr>c_iflag := c_iflag t AND NOT raw_iflags, c_oflag := c_oflag t AND NOT OPOST,
       c_lflag := c_lflag t AND NOT (ECHO OR ECHONL OR ICANON OR ISIG OR IEXTEN),
       c_cflag := c_cflag t AND NOT (CSIZE OR PARENB) OR CS8, c_vmin := 1, c_vtime := 0\<rparr>"

record port_setup =
  rs485_flags :: "flags option"
  settings :: termios

definition portsetup :: "int \<Rightarrow> termios \<Rightarrow> bool \<Rightarrow> int \<times> port_setup option" where
  "portsetup portfd options useRS485 =
     (if portfd < 0 then (portfd, None)
      else let rs485 = (if useRS485
                        then Some ((SER_RS485_ENABLED OR SER_RS485_RTS_AFTER_SEND) AND NOT SER_RS485_RTS_ON_SEND)
                        else None);
               options = cfsetspeed B9600 (cfsetspeed B9600 options);
               options = options\<lparr>c_cflag := c_cflag options AND NOT PARENB\<rparr>;
               options = options\<lparr>c_cflag := c_cflag options AND NOT CSTOPB\<rparr>;
               options = options\<lparr>c_cflag := c_cflag options AND NOT CSIZE\<rparr>;
               options = options\<lparr>c_cflag := c_cflag options OR CS8\<rparr>;
               options = options\<lparr>c_cflag := c_cflag options OR (CLOCAL OR CREAD)\<rparr>;
               options = options\<lparr>c_lflag := c_lflag options AND NOT (ICANON OR ECHO OR ECHOE OR ISIG)\<rparr>;
               options = cfmakeraw options
           in (portfd, Some \<lparr>rs485_flags = rs485, settings = options\<rparr>))"

definition init_tty :: "int \<Rightarrow> flags \<Rightarrow> int \<times> port_setup option" where
  "init_tty tty_fd tty_baud_flag =
     (if tty_fd < 0 then (tty_fd, None)
      else (tty_fd, Some \<lparr>rs485_flags = None,
              settings = \<lparr>c_iflag = IGNBRK OR IGNPAR, c_oflag = 0, c_cflag = CREAD OR CLOCAL OR tty_baud_flag OR CS8,
                          c_lflag = 0, c_vmin = 1, c_vtime = 0\<rparr>\<rparr>))"

subsection \<open>The line\<close>

text \<open>Eight data bits, no parity, one stop bit, the given speed, and no processing of input.\<close>

definition line_8n1 :: "flags \<Rightarrow> termios \<Rightarrow> bool" where
  "line_8n1 speed t \<longleftrightarrow>
     c_cflag t AND (CSIZE OR PARENB OR CSTOPB OR CBAUD OR CREAD OR CLOCAL) = CS8 OR CREAD OR CLOCAL OR speed \<and>
     c_lflag t AND (ICANON OR ECHO OR ISIG OR IEXTEN) = 0 \<and> c_oflag t AND OPOST = 0"

lemmas flag_defs =
  PARENB_def CSTOPB_def CSIZE_def CS8_def CREAD_def CLOCAL_def CBAUD_def B9600_def ISIG_def ICANON_def ECHO_def ECHOE_def
  ECHONL_def IEXTEN_def OPOST_def

lemma flags_absorb: "((x AND m) OR a) OR m = a OR m" for x m a :: flags
  by (rule bit_word_eqI) (auto simp: bit_simps)

text \<open>Whatever the settings were, both drivers get the line they expect, and RS485 only on demand.\<close>

lemma portsetup_line:
  "portsetup fd old useRS485 = (ret, Some p) \<Longrightarrow> line_8n1 B9600 (settings p) \<and> (rs485_flags p = None \<longleftrightarrow> \<not> useRS485)"
  by (auto simp: portsetup_def Let_def cfsetspeed_def cfmakeraw_def line_8n1_def flag_defs and.assoc bit.conj_disj_distrib2 flags_absorb
      split: if_splits)

lemma init_tty_line: "init_tty fd B9600 = (fd, Some p) \<Longrightarrow> line_8n1 B9600 (settings p)"
  by (auto simp: init_tty_def line_8n1_def flag_defs split: if_splits)

end
