(* ===== verification/Spec2Isabelle.thy ===== *)
theory Spec2Isabelle
  imports Whole_Program Event_Delivery Two_Factor Reader_Roger Osdp_Tools Serial_Port
begin

text \<open>
  A verification library for the access controller of this repository: a C program that drives
  up to two door locks through GPIO lines, reads cards and PINs from OSDP readers on serial
  lines, decides by an SQLite database who may pass, reports events and obeys remote commands.

  \<^bold>\<open>The program and how its parts interact.\<close> \<open>main\<close> (\<open>door_controller/main.c\<close>) parses options and the
  configuration file, makes the array of doors, opens a reader for each side of a door and the
  databases, restores the administrative locks and then alternates \<open>mainLoop\<close>
  (\<open>door_controller/door_controller.c\<close>) and \<open>check_network\<close> (\<open>door_controller/remoteControl.c\<close>).
  A call of \<open>mainLoop\<close> reads the inputs (\<open>gpios/gpio-orangepizero.c\<close>), runs the lock timers
  and polls the readers (\<open>readers/reader-idesco.c\<close> over the packets of \<open>readers/osdp/osdp.c\<close>);
  the driver hands cards and PINs back through \<open>process_user_info\<close>, which asks the database
  (\<open>door_controller/user_db.c\<close>, with the digest of \<open>libs/md5.c\<close>) and calls \<open>unlock_door\<close>.
  Everything is reported through \<open>sendEvent\<close> (\<open>door_controller/eventSend.c\<close>).

  \<^bold>\<open>Theories.\<close>
  \<^item> \<open>AC_Prelude\<close>: the result type \<open>cres\<close> of code with undefined behaviour (\<open>Inl\<close> a fault),
    its bind, bounded array access, folds, and the shared lemmas on words and maps.
  \<^item> \<open>Crc16\<close>: \<open>fCrcBlk\<close> and its table; equality with the bit by bit CRC and its linearity.
  \<^item> \<open>Osdp\<close>: \<open>fill_packet\<close>, \<open>crclen_packet\<close>, \<open>ledset\<close>, \<open>beepset\<close>, \<open>comset\<close>, \<open>send_packet\<close>,
    \<open>recv_packet\<close>, \<open>process_packet\<close>; frames, round trip, error detection, memory safety.
  \<^item> \<open>Md5\<close>: \<open>libs/md5.c\<close> with its context and buffering; refinement of RFC 1321. What a caller
    relies on is the locale \<open>stream_digest\<close>, interpreted here.
  \<^item> \<open>Gpio\<close>: \<open>set_door_state\<close> and \<open>get_input_state\<close>.
  \<^item> \<open>C_Text\<close>: the functions of the C library on strings that the program calls.
  \<^item> \<open>Events\<close>, \<open>Event_Send\<close>: the events of \<open>sendEvent\<close>, their log line, message and command.
  \<^item> \<open>User_Db\<close>: \<open>getAccessMask2\<close> and \<open>checkKeyAccess2\<close> with the SQL text they build.
  \<^item> \<open>Door_State\<close>, \<open>Door_Controller\<close>: the records \<open>Door\<close> and \<open>DoorReader\<close> and every function of
    \<open>door_controller.c\<close>. The state \<open>sys\<close> has the doors, the heap of readers and the trace
    of effects (output lines, events).
  \<^item> \<open>Door_Steps\<close>, \<open>Door_Cycle\<close>, \<open>Door_Safety\<close>, \<open>Door_Behaviour\<close>, \<open>Access_Decision\<close>: the lemmas on
    it. \<open>Door_Steps\<close> and \<open>Door_Cycle\<close> state what is relied on of a reader driver as the
    locales \<open>reader_signals\<close> and \<open>reader_driver\<close> and prove inside them that a call of
    \<open>mainLoop\<close> is a run of an abstract step machine; \<open>Door_Safety\<close> derives from its steps that
    partners are never unlocked together and that locks fall back in time; \<open>Access_Decision\<close>
    compares the switch of \<open>process_user_info\<close> with a table of who may pass.
  \<^item> \<open>Reader_Idesco\<close>: the OSDP driver, and its interpretation of \<open>reader_driver\<close>.
  \<^item> \<open>Controller\<close>: the controller with this driver, and the properties of the main loop.
  \<^item> \<open>Reader_To_Lock\<close>: packets, driver and controller together: the frame of a card or of keys on
    the serial line opens the door exactly when the database grants it. \<open>Two_Factor\<close>: a card
    and then a PIN, on a reader that asks for both.
  \<^item> \<open>Remote_Control\<close>, \<open>Remote_Safety\<close>: the remote commands, the state table, the whole loop.
  \<^item> \<open>Configuration\<close>, \<open>Program_Start\<close>: options, the configuration file, and the start.
  \<^item> \<open>Whole_Program\<close>: \<open>main\<close> from its arguments to any number of passes of its loop.
  \<^item> \<open>Event_Delivery\<close>: the controller and \<open>sendEvent\<close> together; every operation of the main loop
    reports only events with short texts when names are short, and \<open>sendEvent\<close> delivers those.
  \<^item> \<open>Osdp_Tools\<close>: \<open>packet_dump\<close> and the two programs of \<open>tools/\<close>.
  \<^item> \<open>Serial_Port\<close>: the terminal settings of \<open>portsetup\<close> and \<open>init_tty\<close>.
  \<^item> \<open>Epso\<close>, \<open>Reader_Roger\<close>: the protocol of EPSO readers (\<open>readers/epso/epso.c\<close>) and the driver
    \<open>readers/reader-roger.c\<close>, which a build links in place of the OSDP driver. It faults when a
    reader does not answer and hangs when a signal is answered, so it is no interpretation of
    \<open>reader_driver\<close>; the lemmas show which exchanges work and what the failures do.

  \<^bold>\<open>Correspondence.\<close> Definitions bear the names of the functions, records the names of the
  structures and their fields. \<open>uint8_t\<close> and \<open>uint32_t\<close> are words of 8 and 32 bits; the \<open>int\<close>
  counters of a door are \<open>int\<close>, since the proofs show that they stay in range. Pointers to
  doors are indices, pointers to readers addresses of the heap. A write or read outside an
  array and a \<open>NULL\<close> dereference are the faults \<open>Out_of_bounds\<close> and \<open>Null_pointer\<close>, so that a
  theorem with \<open>Inr\<close> in its conclusion states their absence.

  \<^bold>\<open>Bounds.\<close> The loops over buffers, rows, doors and packets are structural or have a proved
  measure, so no fuel is used; the loop of \<open>epso_write_read\<close> over an answer, which need not end,
  is a \<open>while_option\<close>, and \<open>None\<close> means that the call never returns. The numbers are those of
  the code: packets of 64 bytes, 28 keys of a PIN entry, 16 bytes of a card and 17 of a PIN, buffers of 500, 256 and 128 bytes, 13 cycles
  until a door locks, 23 for a second factor, 60 between two alarms, two doors with output
  lines. The endless loop of \<open>main\<close> is a list of passes of any length.

  \<^bold>\<open>Parameters.\<close> libgpiod (whether the calls succeed, and the values of the lines), SQLite
  (rows of a statement, result codes), the serial port (bytes received, results of \<open>write\<close>),
  sockets (a datagram), \<open>getopt_long\<close> (the options found), the clock and the terminal interface. The
  contents of uninitialised variables are arguments as well.

  \<^bold>\<open>Not modelled.\<close> The logging macros of \<open>libs/error_reporting.h\<close>, the usage text and the other
  messages only print; \<open>init_net\<close> only calls the socket library; \<open>close_reader\<close> frees memory; the
  delays have no effect on the state; \<open>tools/listenKD.sh\<close> is a shell script.
\<close>

end
